theory Spec2Isabelle
  imports Main
begin

section \<open>Go strings and failures\<close>

text \<open>
  A Go \<^verbatim>\<open>string\<close> is a sequence of bytes: it is modelled as \<^typ>\<open>string\<close>, and
  \<^verbatim>\<open>len\<close> is \<^const>\<open>length\<close>.

  The functions of \<^verbatim>\<open>irc/config.go\<close> fail in three ways, which the model keeps apart:
  they return an \<^verbatim>\<open>error\<close> value (here with its message), they panic at run time
  (the index \<^verbatim>\<open>oc.Title[0]\<close> out of range), or they call \<^verbatim>\<open>log.Fatal\<close>, which ends the
  process.
\<close>

datatype failure =
    Error string
  | Panic
  | Fatal string

text \<open>
  \<^verbatim>\<open>strings.Contains(s, substr)\<close>: \<^verbatim>\<open>substr\<close> occurs in \<^verbatim>\<open>s\<close> as a contiguous run of
  bytes. \<^verbatim>\<open>strings.HasPrefix\<close> is its test at one position.
\<close>

definition strings_HasPrefix :: "string \<Rightarrow> string \<Rightarrow> bool" where
  "strings_HasPrefix s prefix = (take (length prefix) s = prefix)"

fun strings_Contains :: "string \<Rightarrow> string \<Rightarrow> bool" where
  "strings_Contains [] substr = (substr = [])"
| "strings_Contains (c # s) substr =
     (strings_HasPrefix (c # s) substr \<or> strings_Contains s substr)"

text \<open>
  \<^verbatim>\<open>strings.Split(s, " ")\<close>: the pieces of \<^verbatim>\<open>s\<close> between the occurrences of a one-byte
  separator. Two separators in a row give an empty piece, and the empty string gives one
  empty piece.
\<close>

fun strings_Split :: "string \<Rightarrow> char \<Rightarrow> string list" where
  "strings_Split [] sep = [[]]"
| "strings_Split (c # s) sep =
     (if c = sep then [] # strings_Split s sep
      else (case strings_Split s sep of
              [] \<Rightarrow> [[c]]
            | t # ts \<Rightarrow> (c # t) # ts))"

text \<open>
  \<^verbatim>\<open>string(b)\<close> for a byte \<^verbatim>\<open>b\<close> is the UTF-8 encoding of the code point \<^verbatim>\<open>b\<close>: the byte
  itself below 128, two bytes from 128 on.
\<close>

definition string_of_byte :: "char \<Rightarrow> string" where
  "string_of_byte b =
     (let n = (of_char b :: nat)
      in if n < 128 then [b]
         else [char_of (192 + n div 64), char_of (128 + n mod 64)])"

text \<open>
  \<^verbatim>\<open>strings.ToLower\<close> belongs to Go's library, not to this repository: the functions
  below take it as the parameter \<open>ToLower\<close>. \<open>ascii_ToLower\<close> is what it computes on a
  string of ASCII bytes, and is used to run the model on concrete ASCII inputs.
\<close>

definition ascii_ToLower :: "string \<Rightarrow> string" where
  "ascii_ToLower s =
     map (\<lambda>c. case map_of (zip ''ABCDEFGHIJKLMNOPQRSTUVWXYZ'' ''abcdefghijklmnopqrstuvwxyz'') c of
                 None \<Rightarrow> c
               | Some l \<Rightarrow> l) s"

section \<open>Operator classes\<close>

text \<open>\<^verbatim>\<open>OperClassConfig\<close>: an operator class as the configuration document gives it.\<close>

record OperClassConfig =
  Title :: string
  WhoisLine :: string
  Extends :: string
  Capabilities :: "string list"

text \<open>
  \<^verbatim>\<open>OperClass\<close>: an assembled operator class. Its \<^verbatim>\<open>Capabilities\<close> is a
  \<^verbatim>\<open>map[string]bool\<close> in which the code only ever stores \<^verbatim>\<open>true\<close>: the set of its keys.
\<close>

record OperClass =
  Title :: string
  WhoisLine :: string
  Capabilities :: "string set"

definition errLoopingDependency :: string where
  "errLoopingDependency =
     ''OperClasses contains a looping dependency, or a class extends from a class that doesn't exist''"

definition errMissingBase :: "string \<Rightarrow> string \<Rightarrow> string" where
  "errMissingBase name ext =
     ''Operclass ['' @ name @ ''] extends ['' @ ext @ ''], which doesn't exist''"

text \<open>
  Lines 303 to 312: the whois line of a new class. Without an explicit one it is
  \<^verbatim>\<open>"is a"\<close>, then \<^verbatim>\<open>"n"\<close> if
  \<^verbatim>\<open>strings.Contains(strings.ToLower(string(oc.Title[0])), "aeiou")\<close>, then a space and the
  title. \<^verbatim>\<open>oc.Title[0]\<close> panics on the empty title.
\<close>

definition default_WhoisLine :: "(string \<Rightarrow> string) \<Rightarrow> string \<Rightarrow> failure + string" where
  "default_WhoisLine ToLower title =
     (case title of
        [] \<Rightarrow> Inl Panic
      | c # _ \<Rightarrow>
          Inr (''is a''
               @ (if strings_Contains (ToLower (string_of_byte c)) ''aeiou'' then ''n'' else [])
               @ '' '' @ title))"

text \<open>
  Lines 285 to 312: the class assembled for a record \<open>info\<close>, from the classes \<open>ocs\<close>
  assembled so far. A lookup of a missing key in \<open>ocs\<close> gives Go's zero value, whose
  capability map is empty.
\<close>

definition new_OperClass ::
  "(string \<Rightarrow> string) \<Rightarrow> (string \<times> OperClass) list \<Rightarrow> OperClassConfig \<Rightarrow> failure + OperClass"
where
  "new_OperClass ToLower ocs info =
     (let inherited =
            (if length (Extends info) > 0
             then (case map_of ocs (Extends info) of
                     None \<Rightarrow> {}
                   | Some einfo \<Rightarrow> OperClass.Capabilities einfo)
             else {});
          capabs = inherited \<union> set (OperClassConfig.Capabilities info)
      in case (if length (OperClassConfig.WhoisLine info) > 0
               then Inr (OperClassConfig.WhoisLine info)
               else default_WhoisLine ToLower (OperClassConfig.Title info)) of
           Inl e \<Rightarrow> Inl e
         | Inr w \<Rightarrow>
             Inr \<lparr>OperClass.Title = OperClassConfig.Title info, WhoisLine = w,
                  Capabilities = capabs\<rparr>)"

text \<open>
  Lines 269 to 315: one pass over \<^verbatim>\<open>conf.OperClasses\<close>. The Go map \<^verbatim>\<open>conf.OperClasses\<close> is
  the association list \<open>operClasses\<close>, read with \<^const>\<open>map_of\<close>. Go enumerates a map in
  an order of its own choosing: the pass takes the order as the list \<open>names\<close> of the keys
  it visits (a name that is no key of the map is never enumerated, and is skipped).
  The map \<^verbatim>\<open>ocs\<close> under construction is an association list too; an entry is only ever
  added under a key it does not have yet, so that \<^verbatim>\<open>len(ocs)\<close> is its length. The state
  of the pass is \<^verbatim>\<open>ocs\<close> and the flag \<^verbatim>\<open>anyMissing\<close>.
\<close>

fun OperatorClasses_pass ::
  "(string \<Rightarrow> string) \<Rightarrow> (string \<times> OperClassConfig) list \<Rightarrow> string list
     \<Rightarrow> (string \<times> OperClass) list \<times> bool \<Rightarrow> failure + (string \<times> OperClass) list \<times> bool"
where
  "OperatorClasses_pass ToLower operClasses [] st = Inr st"
| "OperatorClasses_pass ToLower operClasses (name # names) (ocs, anyMissing) =
     (case map_of operClasses name of
        None \<Rightarrow> OperatorClasses_pass ToLower operClasses names (ocs, anyMissing)
      | Some info \<Rightarrow>
          (let exists = (map_of ocs name \<noteq> None);
               extendsExists = (map_of ocs (Extends info) \<noteq> None)
           in if exists
              then OperatorClasses_pass ToLower operClasses names (ocs, anyMissing)
              else if length (Extends info) > 0 \<and> \<not> extendsExists
              then (if map_of operClasses (Extends info) = None
                    then Inl (Error (errMissingBase name (Extends info)))
                    else OperatorClasses_pass ToLower operClasses names (ocs, True))
              else (case new_OperClass ToLower ocs info of
                      Inl e \<Rightarrow> Inl e
                    | Inr oc \<Rightarrow>
                        OperatorClasses_pass ToLower operClasses names
                          (ocs @ [(name, oc)], anyMissing))))"

text \<open>
  A pass only appends to \<^verbatim>\<open>ocs\<close>, under keys of \<^verbatim>\<open>conf.OperClasses\<close> that \<^verbatim>\<open>ocs\<close> does
  not have, and never clears \<^verbatim>\<open>anyMissing\<close>.
\<close>

lemma OperatorClasses_pass_appends:
  "OperatorClasses_pass ToLower operClasses names (ocs, anyMissing) = Inr (ocs', anyMissing')
   \<Longrightarrow> \<exists>added. ocs' = ocs @ added
         \<and> distinct (map fst added)
         \<and> set (map fst added) \<subseteq> fst ` set operClasses - fst ` set ocs
         \<and> (anyMissing \<longrightarrow> anyMissing')"
proof (induction names arbitrary: ocs anyMissing)
  case Nil
  then show ?case by simp
next
  case (Cons name names)
  show ?case
  proof (cases "map_of operClasses name")
    case None
    with Cons.prems Cons.IH [of ocs anyMissing] show ?thesis by simp
  next
    case (Some info)
    then have key: "name \<in> fst ` set operClasses"
      by (metis domI dom_map_of_conv_image_fst)
    show ?thesis
    proof (cases "map_of ocs name \<noteq> None")
      case True
      with Some Cons.prems Cons.IH [of ocs anyMissing] show ?thesis by simp
    next
      case fresh: False
      then have notin: "name \<notin> fst ` set ocs"
        by (simp add: map_of_eq_None_iff)
      show ?thesis
      proof (cases "length (Extends info) > 0 \<and> map_of ocs (Extends info) = None")
        case True
        with Some fresh Cons.prems
        have "OperatorClasses_pass ToLower operClasses names (ocs, True) = Inr (ocs', anyMissing')"
          by (simp split: if_splits)
        from Cons.IH [OF this] show ?thesis by auto
      next
        case False
        with Some fresh Cons.prems obtain oc where
          oc: "new_OperClass ToLower ocs info = Inr oc" and
          rest: "OperatorClasses_pass ToLower operClasses names (ocs @ [(name, oc)], anyMissing)
                   = Inr (ocs', anyMissing')"
          by (auto split: sum.splits if_splits)
        from Cons.IH [OF rest] obtain added where
          a: "ocs' = (ocs @ [(name, oc)]) @ added" "distinct (map fst added)"
             "set (map fst added) \<subseteq> fst ` set operClasses - fst ` set (ocs @ [(name, oc)])"
             "anyMissing \<longrightarrow> anyMissing'"
          by blast
        have "ocs' = ocs @ ((name, oc) # added)" using a(1) by simp
        moreover have "distinct (map fst ((name, oc) # added))" using a(2,3) by auto
        moreover have "set (map fst ((name, oc) # added)) \<subseteq> fst ` set operClasses - fst ` set ocs"
          using a(3) key notin by auto
        ultimately show ?thesis using a(4) by blast
      qed
    qed
  qed
qed

text \<open>
  Lines 260 to 321: the loop of \<^verbatim>\<open>OperatorClasses\<close>. \<open>sched i\<close> is the order in which the
  pass number \<open>i\<close> enumerates the map. The loop ends with the looping-dependency error
  when \<^verbatim>\<open>len(ocs)\<close> is what it was before the last pass, and with \<^verbatim>\<open>ocs\<close> after a pass
  that left \<^verbatim>\<open>anyMissing\<close> unset.
\<close>

function OperatorClasses_loop ::
  "(string \<Rightarrow> string) \<Rightarrow> (string \<times> OperClassConfig) list \<Rightarrow> (nat \<Rightarrow> string list)
     \<Rightarrow> nat \<Rightarrow> int \<Rightarrow> (string \<times> OperClass) list \<Rightarrow> failure + (string \<times> OperClass) list"
where
  "OperatorClasses_loop ToLower operClasses sched i lenOfLastOcs ocs =
     (if lenOfLastOcs = int (length ocs)
      then Inl (Error errLoopingDependency)
      else (case OperatorClasses_pass ToLower operClasses (sched i) (ocs, False) of
              Inl e \<Rightarrow> Inl e
            | Inr (ocs', anyMissing) \<Rightarrow>
                if \<not> anyMissing then Inr ocs'
                else OperatorClasses_loop ToLower operClasses sched (Suc i)
                       (int (length ocs)) ocs'))"
  by pat_completeness auto
termination
proof (relation "measure (\<lambda>(ToLower, operClasses, sched, i, lenOfLastOcs, ocs).
          2 * card (fst ` set operClasses - fst ` set ocs)
          + (if lenOfLastOcs = int (length ocs) then 0 else 1))", goal_cases)
  case 1
  show ?case by simp
next
  case (2 ToLower operClasses sched i lenOfLastOcs ocs st ocs' anyMissing)
  then have "OperatorClasses_pass ToLower operClasses (sched i) (ocs, False) = Inr (ocs', anyMissing)"
    by simp
  from OperatorClasses_pass_appends [OF this] obtain added where
    a: "ocs' = ocs @ added" "set (map fst added) \<subseteq> fst ` set operClasses - fst ` set ocs"
    by blast
  let ?R = "fst ` set operClasses - fst ` set ocs"
  let ?R' = "fst ` set operClasses - fst ` set ocs'"
  show ?case
  proof (cases added)
    case Nil
    with a 2 show ?thesis by simp
  next
    case (Cons p ps)
    with a have "fst p \<in> ?R" "fst p \<notin> ?R'" by auto
    moreover have "?R' \<subseteq> ?R" using a by auto
    ultimately have "?R' \<subset> ?R" by blast
    then have "card ?R' < card ?R"
      by (simp add: psubset_card_mono)
    with 2 show ?thesis by simp
  qed
qed

text \<open>
  \<^verbatim>\<open>OperatorClasses\<close>: the loop from the empty map and \<^verbatim>\<open>lenOfLastOcs = -1\<close>. What it
  returns is a Go map: the order in which \<^verbatim>\<open>ocs\<close> was filled is forgotten.
\<close>

definition OperatorClasses ::
  "(string \<Rightarrow> string) \<Rightarrow> (string \<times> OperClassConfig) list \<Rightarrow> (nat \<Rightarrow> string list)
     \<Rightarrow> failure + (string \<rightharpoonup> OperClass)"
where
  "OperatorClasses ToLower operClasses sched =
     (case OperatorClasses_loop ToLower operClasses sched 0 (- 1) [] of
        Inl e \<Rightarrow> Inl e
      | Inr ocs \<Rightarrow> Inr (map_of ocs))"

section \<open>Operators\<close>

text \<open>\<^verbatim>\<open>OperConfig\<close>: an operator as the configuration document gives it.\<close>

record OperConfig =
  Class :: string
  Vhost :: string
  WhoisLine :: string
  Password :: string
  Modes :: string

text \<open>
  \<^verbatim>\<open>Oper\<close>: an assembled operator. \<^verbatim>\<open>Class\<close> points to a copy of the class found in the
  map of assembled classes; \<^verbatim>\<open>Pass\<close> is the decoded password hash.
\<close>

record Oper =
  Class :: OperClass
  WhoisLine :: string
  Vhost :: string
  Pass :: string
  Modes :: string

definition errCasefold :: "string \<Rightarrow> string" where
  "errCasefold err = ''Could not casefold oper name: '' @ err"

definition errUnknownClass :: "string \<Rightarrow> string \<Rightarrow> string" where
  "errUnknownClass name class =
     ''Could not load operator ['' @ name @ ''] - they use operclass ['' @ class
       @ ''] which does not exist''"

text \<open>
  Lines 339 to 362: the body of the loop of \<^verbatim>\<open>Operators\<close>, for the entry \<open>opConf\<close> under
  the key \<open>name\<close>. \<^verbatim>\<open>CasefoldName\<close> and \<^verbatim>\<open>DecodePasswordHash\<close> are functions of this
  package that the source files at hand do not hold, and \<^verbatim>\<open>strings.TrimSpace\<close> is Go's:
  the three are parameters, the first two returning the message of their error on the
  left. From \<^verbatim>\<open>name, err := CasefoldName(name)\<close> on, \<^verbatim>\<open>name\<close> is the casefolded name.
  \<^verbatim>\<open>PasswordBytes\<close> ends the process through \<^verbatim>\<open>log.Fatal\<close> when the hash does not decode.
\<close>

definition Operators_entry ::
  "(string \<Rightarrow> string + string) \<Rightarrow> (string \<Rightarrow> string + string) \<Rightarrow> (string \<Rightarrow> string)
     \<Rightarrow> (string \<rightharpoonup> OperClass) \<Rightarrow> string \<Rightarrow> OperConfig \<Rightarrow> failure + string \<times> Oper"
where
  "Operators_entry CasefoldName DecodePasswordHash TrimSpace oc name opConf =
     (case CasefoldName name of
        Inl err \<Rightarrow> Inl (Error (errCasefold err))
      | Inr name' \<Rightarrow>
          (case DecodePasswordHash (Password opConf) of
             Inl err \<Rightarrow> Inl (Fatal (''decode password error: '' @ err))
           | Inr bytes \<Rightarrow>
               (case oc (OperConfig.Class opConf) of
                  None \<Rightarrow> Inl (Error (errUnknownClass name' (OperConfig.Class opConf)))
                | Some class \<Rightarrow>
                    Inr (name',
                         \<lparr>Oper.Class = class,
                          WhoisLine =
                            (if length (OperConfig.WhoisLine opConf) > 0
                             then OperConfig.WhoisLine opConf
                             else OperClass.WhoisLine class),
                          Vhost = OperConfig.Vhost opConf,
                          Pass = bytes,
                          Modes = TrimSpace (OperConfig.Modes opConf)\<rparr>))))"

text \<open>
  Lines 338 to 364: the loop over \<^verbatim>\<open>conf.Opers\<close>, the association list \<open>opers\<close>,
  enumerated in the order \<open>names\<close> of its keys. \<^verbatim>\<open>operators[name] = oper\<close> replaces an
  entry that an earlier name with the same casefolding made.
\<close>

fun Operators_loop ::
  "(string \<Rightarrow> string + string) \<Rightarrow> (string \<Rightarrow> string + string) \<Rightarrow> (string \<Rightarrow> string)
     \<Rightarrow> (string \<rightharpoonup> OperClass) \<Rightarrow> (string \<times> OperConfig) list \<Rightarrow> string list
     \<Rightarrow> (string \<rightharpoonup> Oper) \<Rightarrow> failure + (string \<rightharpoonup> Oper)"
where
  "Operators_loop CasefoldName DecodePasswordHash TrimSpace oc opers [] operators =
     Inr operators"
| "Operators_loop CasefoldName DecodePasswordHash TrimSpace oc opers (name # names) operators =
     (case map_of opers name of
        None \<Rightarrow>
          Operators_loop CasefoldName DecodePasswordHash TrimSpace oc opers names operators
      | Some opConf \<Rightarrow>
          (case Operators_entry CasefoldName DecodePasswordHash TrimSpace oc name opConf of
             Inl e \<Rightarrow> Inl e
           | Inr (name', oper) \<Rightarrow>
               Operators_loop CasefoldName DecodePasswordHash TrimSpace oc opers names
                 (operators(name' \<mapsto> oper))))"

definition Operators ::
  "(string \<Rightarrow> string + string) \<Rightarrow> (string \<Rightarrow> string + string) \<Rightarrow> (string \<Rightarrow> string)
     \<Rightarrow> (string \<times> OperConfig) list \<Rightarrow> string list \<Rightarrow> (string \<rightharpoonup> OperClass)
     \<Rightarrow> failure + (string \<rightharpoonup> Oper)"
where
  "Operators CasefoldName DecodePasswordHash TrimSpace opers names oc =
     Operators_loop CasefoldName DecodePasswordHash TrimSpace oc opers names Map.empty"

section \<open>Logging directives\<close>

text \<open>
  \<^verbatim>\<open>LoggingConfig\<close>. \<^verbatim>\<open>logger.Level\<close> is an integer type of the package \<^verbatim>\<open>irc/logger\<close>,
  and \<^verbatim>\<open>logger.LogLevelNames\<close> its table of level names: the table is not among the
  source files at hand, and is the parameter \<open>LogLevelNames\<close> below.
\<close>

record LoggingConfig =
  Method :: string
  MethodStdout :: bool
  MethodStderr :: bool
  MethodFile :: bool
  Filename :: string
  TypeString :: string
  Types :: "string list"
  ExcludedTypes :: "string list"
  LevelString :: string
  Level :: int

definition errFileNoFilename :: string where
  "errFileNoFilename =
     ''Logging configuration specifies 'file' method but 'filename' is empty''"

definition errLogLevel :: "string \<Rightarrow> string" where
  "errLogLevel levelString = ''Could not translate log leve ['' @ levelString @ '']''"

definition errBareExclusion :: string where
  "errBareExclusion = ''Encountered logging type '-' with no type to exclude''"

definition errNoTypes :: string where
  "errNoTypes = ''Logger has no types to log''"

text \<open>
  Lines 451 to 456: the keys of the map \<^verbatim>\<open>methods\<close>, each set to \<^verbatim>\<open>true\<close>: the non-empty
  pieces of the method string, in lower case.
\<close>

definition LoadConfig_methods :: "(string \<Rightarrow> string) \<Rightarrow> string \<Rightarrow> string set" where
  "LoadConfig_methods ToLower method =
     set (map ToLower (filter (\<lambda>m. length m > 0) (strings_Split method (CHR '' ''))))"

text \<open>
  Lines 472 to 485: the loop over the pieces of the type string, appending to
  \<^verbatim>\<open>logConfig.Types\<close> and \<^verbatim>\<open>logConfig.ExcludedTypes\<close>.
\<close>

fun LoadConfig_types ::
  "string list \<Rightarrow> string list \<times> string list \<Rightarrow> failure + string list \<times> string list"
where
  "LoadConfig_types [] st = Inr st"
| "LoadConfig_types (typeStr # rest) (types, excludedTypes) =
     (if length typeStr = 0 then LoadConfig_types rest (types, excludedTypes)
      else if typeStr = ''-'' then Inl (Error errBareExclusion)
      else if hd typeStr = CHR ''-''
      then LoadConfig_types rest (types, excludedTypes @ [tl typeStr])
      else LoadConfig_types rest (types @ [typeStr], excludedTypes))"

text \<open>Lines 450 to 488: the body of the loop over \<^verbatim>\<open>config.Logging\<close>, for one directive.\<close>

definition LoadConfig_logConfig ::
  "(string \<Rightarrow> string) \<Rightarrow> (string \<rightharpoonup> int) \<Rightarrow> LoggingConfig \<Rightarrow> failure + LoggingConfig"
where
  "LoadConfig_logConfig ToLower LogLevelNames logConfig =
     (let methods = LoadConfig_methods ToLower (Method logConfig)
      in if ''file'' \<in> methods \<and> Filename logConfig = []
         then Inl (Error errFileNoFilename)
         else (case LogLevelNames (ToLower (LevelString logConfig)) of
                 None \<Rightarrow> Inl (Error (errLogLevel (LevelString logConfig)))
               | Some level \<Rightarrow>
                   (case LoadConfig_types (strings_Split (TypeString logConfig) (CHR '' ''))
                           (Types logConfig, ExcludedTypes logConfig) of
                      Inl e \<Rightarrow> Inl e
                    | Inr (types, excludedTypes) \<Rightarrow>
                        if length types < 1 then Inl (Error errNoTypes)
                        else Inr (logConfig
                               \<lparr>MethodFile := ''file'' \<in> methods,
                                MethodStdout := ''stdout'' \<in> methods,
                                MethodStderr := ''stderr'' \<in> methods,
                                Level := level,
                                Types := types,
                                ExcludedTypes := excludedTypes\<rparr>))))"

text \<open>
  Lines 448 to 492: the loop over \<^verbatim>\<open>config.Logging\<close>, which stops at the first directive
  that fails and otherwise collects the normalised directives in \<^verbatim>\<open>newLogConfigs\<close>.
\<close>

fun LoadConfig_logging ::
  "(string \<Rightarrow> string) \<Rightarrow> (string \<rightharpoonup> int) \<Rightarrow> LoggingConfig list \<Rightarrow> LoggingConfig list
     \<Rightarrow> failure + LoggingConfig list"
where
  "LoadConfig_logging ToLower LogLevelNames [] newLogConfigs = Inr newLogConfigs"
| "LoadConfig_logging ToLower LogLevelNames (logConfig # rest) newLogConfigs =
     (case LoadConfig_logConfig ToLower LogLevelNames logConfig of
        Inl e \<Rightarrow> Inl e
      | Inr logConfig' \<Rightarrow>
          LoadConfig_logging ToLower LogLevelNames rest (newLogConfigs @ [logConfig']))"

section \<open>The extends hierarchy\<close>

text \<open>
  The extends relation of a set of classes: a class and the class it names in
  \<^verbatim>\<open>extends\<close> (the empty string names none). A reference dangles when it names no class
  of the set; the set has a cycle when the relation has one.
\<close>

definition extends_rel :: "(string \<times> OperClassConfig) list \<Rightarrow> (string \<times> string) set" where
  "extends_rel operClasses =
     {(name, Extends info) | name info. map_of operClasses name = Some info \<and> Extends info \<noteq> []}"

definition no_dangling :: "(string \<times> OperClassConfig) list \<Rightarrow> bool" where
  "no_dangling operClasses =
     (\<forall>name info. map_of operClasses name = Some info \<and> Extends info \<noteq> []
        \<longrightarrow> map_of operClasses (Extends info) \<noteq> None)"

definition no_cycles :: "(string \<times> OperClassConfig) list \<Rightarrow> bool" where
  "no_cycles operClasses = acyclic (extends_rel operClasses)"

text \<open>An enumeration of the map: each of its keys, once.\<close>

definition enumerates :: "(string \<times> OperClassConfig) list \<Rightarrow> string list \<Rightarrow> bool" where
  "enumerates operClasses names = (distinct names \<and> set names = fst ` set operClasses)"

text \<open>A class with neither whois line nor title.\<close>

definition untitled :: "OperClassConfig \<Rightarrow> bool" where
  "untitled info = (OperClassConfig.WhoisLine info = [] \<and> OperClassConfig.Title info = [])"

text \<open>
  What resolution is to produce: for each class its title, its whois line (its own, or
  the default the code builds from the title), and the capabilities of the class and of
  all its ancestors along the extends chain.
\<close>

definition own_capabilities :: "(string \<times> OperClassConfig) list \<Rightarrow> string \<Rightarrow> string set" where
  "own_capabilities operClasses name =
     (case map_of operClasses name of
        None \<Rightarrow> {}
      | Some info \<Rightarrow> set (OperClassConfig.Capabilities info))"

definition inherited_capabilities :: "(string \<times> OperClassConfig) list \<Rightarrow> string \<Rightarrow> string set" where
  "inherited_capabilities operClasses name =
     (\<Union>ancestor \<in> {a. (name, a) \<in> (extends_rel operClasses)\<^sup>*}. own_capabilities operClasses ancestor)"

definition resolved_WhoisLine :: "(string \<Rightarrow> string) \<Rightarrow> OperClassConfig \<Rightarrow> string" where
  "resolved_WhoisLine ToLower info =
     (if OperClassConfig.WhoisLine info \<noteq> [] then OperClassConfig.WhoisLine info
      else ''is a''
           @ (if strings_Contains (ToLower (string_of_byte (hd (OperClassConfig.Title info)))) ''aeiou''
              then ''n'' else [])
           @ '' '' @ OperClassConfig.Title info)"

definition resolved :: "(string \<Rightarrow> string) \<Rightarrow> (string \<times> OperClassConfig) list \<Rightarrow> string \<rightharpoonup> OperClass" where
  "resolved ToLower operClasses name =
     (case map_of operClasses name of
        None \<Rightarrow> None
      | Some info \<Rightarrow>
          Some \<lparr>OperClass.Title = OperClassConfig.Title info,
                WhoisLine = resolved_WhoisLine ToLower info,
                Capabilities = inherited_capabilities operClasses name\<rparr>)"

section \<open>Example configurations\<close>

text \<open>
  A logging directive with the methods \<^verbatim>\<open>file\<close> and \<^verbatim>\<open>stdout\<close>, as a document that
  gives its method, filename, type and level deserialises it: the fields the loop fills
  hold Go's zero values.
\<close>

definition logConfig_file_stdout :: LoggingConfig where
  "logConfig_file_stdout =
     \<lparr>Method = ''file stdout'', MethodStdout = False, MethodStderr = False, MethodFile = False,
      Filename = ''ircd.log'', TypeString = ''server -connect'', Types = [], ExcludedTypes = [],
      LevelString = ''info'', Level = 0\<rparr>"

text \<open>
  Operator classes: two flat classes with a title and no whois line, a class with neither
  title nor whois line, and a class that extends a class the document does not have.
\<close>

definition operClass_admin :: OperClassConfig where
  "operClass_admin =
     \<lparr>OperClassConfig.Title = ''Admin'', WhoisLine = [], Extends = [],
      Capabilities = [''oper:rehash'', ''oper:die'']\<rparr>"

definition operClass_bot :: OperClassConfig where
  "operClass_bot =
     \<lparr>OperClassConfig.Title = ''Bot'', WhoisLine = [], Extends = [],
      Capabilities = [''oper:local_kill'']\<rparr>"

definition operClass_untitled :: OperClassConfig where
  "operClass_untitled =
     \<lparr>OperClassConfig.Title = [], WhoisLine = [], Extends = [],
      Capabilities = [''oper:local_kill'']\<rparr>"

definition operClass_helper :: OperClassConfig where
  "operClass_helper =
     \<lparr>OperClassConfig.Title = ''Helper'', WhoisLine = [], Extends = ''missing'',
      Capabilities = []\<rparr>"

text \<open>
  Modelled from the spec: \<^verbatim>\<open>CasefoldName\<close> ("Unicode-aware casefolding with rejection of
  invalid identifiers") and \<^verbatim>\<open>DecodePasswordHash\<close> (the password-hash codec, fatal on a
  decode failure) are functions of this package outside the source files at hand. The
  functions of \<^verbatim>\<open>irc/config.go\<close> take them as parameters; to run them on concrete
  operators, \<open>example_CasefoldName\<close> lower-cases ASCII names and rejects the empty name
  and a name with a space, and \<open>example_DecodePasswordHash\<close> rejects the empty hash and
  hands any other back. \<open>ascii_TrimSpace\<close> is \<^verbatim>\<open>strings.TrimSpace\<close> on strings whose only
  white space is the space character.
\<close>

definition example_CasefoldName :: "string \<Rightarrow> string + string" where
  "example_CasefoldName name =
     (if name = [] \<or> CHR '' '' \<in> set name then Inl ''invalid name''
      else Inr (ascii_ToLower name))"

definition example_DecodePasswordHash :: "string \<Rightarrow> string + string" where
  "example_DecodePasswordHash encoded =
     (if encoded = [] then Inl ''empty password'' else Inr encoded)"

definition ascii_TrimSpace :: "string \<Rightarrow> string" where
  "ascii_TrimSpace s =
     rev (dropWhile (\<lambda>c. c = CHR '' '') (rev (dropWhile (\<lambda>c. c = CHR '' '') s)))"

text \<open>An operator of the class \<^verbatim>\<open>server-admin\<close>, and that class as assembled.\<close>

definition operConfig_dan :: OperConfig where
  "operConfig_dan =
     \<lparr>OperConfig.Class = ''server-admin'', Vhost = ''n'', WhoisLine = [],
      Password = ''JDJhJDA0'', Modes = '' +is ''\<rparr>"

definition operClass_server_admin :: OperClass where
  "operClass_server_admin =
     \<lparr>OperClass.Title = ''Server Admin'', WhoisLine = ''is a Server Admin'',
      Capabilities = {''oper:rehash''}\<rparr>"

text \<open>
  A class that extends another, with a whois line of its own, and two classes that extend
  each other.
\<close>

definition operClass_local_oper :: OperClassConfig where
  "operClass_local_oper =
     \<lparr>OperClassConfig.Title = ''Local Operator'', WhoisLine = [], Extends = [],
      Capabilities = [''oper:local_kill'', ''oper:local_ban'']\<rparr>"

definition operClass_server_admin_config :: OperClassConfig where
  "operClass_server_admin_config =
     \<lparr>OperClassConfig.Title = ''Server Admin'', WhoisLine = ''is the server admin'',
      Extends = ''local-oper'', Capabilities = [''oper:rehash'', ''oper:local_kill'']\<rparr>"

definition operClass_alpha :: OperClassConfig where
  "operClass_alpha =
     \<lparr>OperClassConfig.Title = ''Alpha'', WhoisLine = [], Extends = ''beta'',
      Capabilities = [''oper:rehash'']\<rparr>"

definition operClass_beta :: OperClassConfig where
  "operClass_beta =
     \<lparr>OperClassConfig.Title = ''Beta'', WhoisLine = [], Extends = ''alpha'',
      Capabilities = [''oper:die'']\<rparr>"

text \<open>
  The operator of above with a class that no map of classes has, and with a whois line of
  its own.
\<close>

definition operConfig_ghost :: OperConfig where
  "operConfig_ghost = operConfig_dan\<lparr>OperConfig.Class := ''ghost''\<rparr>"

definition operConfig_whois :: OperConfig where
  "operConfig_whois = operConfig_dan\<lparr>OperConfig.WhoisLine := ''is Dan''\<rparr>"

section \<open>Properties of the logging directives\<close>

text \<open>The loop over the types fails only on a bare \<^verbatim>\<open>-\<close>.\<close>

lemma LoadConfig_types_failure:
  "LoadConfig_types ts st = Inl e \<Longrightarrow> e = Error errBareExclusion"
proof (induction ts arbitrary: st)
  case Nil
  then show ?case by simp
next
  case (Cons t ts)
  obtain types excl where st: "st = (types, excl)" by (cases st)
  from Cons.prems show ?case
    unfolding st LoadConfig_types.simps
    by (metis Cons.IH Inl_inject)
qed

lemma errors_differ:
  "errLogLevel l \<noteq> errFileNoFilename" "errBareExclusion \<noteq> errFileNoFilename"
  "errNoTypes \<noteq> errFileNoFilename" "errFileNoFilename \<noteq> errBareExclusion"
  by (simp_all add: errLogLevel_def errFileNoFilename_def errBareExclusion_def errNoTypes_def)

lemma LoadConfig_logConfig_no_file:
  "''file'' \<notin> LoadConfig_methods ToLower (Method lc) \<or> Filename lc \<noteq> []
   \<Longrightarrow> LoadConfig_logConfig ToLower LogLevelNames lc \<noteq> Inl (Error errFileNoFilename)"
  by (auto simp: LoadConfig_logConfig_def Let_def errors_differ
           split: option.splits sum.splits dest: LoadConfig_types_failure)

lemma LoadConfig_logging_fails:
  "lc \<in> set logging \<Longrightarrow> LoadConfig_logConfig ToLower LogLevelNames lc = Inl e
   \<Longrightarrow> \<exists>e'. LoadConfig_logging ToLower LogLevelNames logging new = Inl e'"
  by (induction logging arbitrary: new) (auto split: sum.splits)

lemma LoadConfig_logging_append:
  "LoadConfig_logging ToLower LogLevelNames (pre @ post) new =
     (case LoadConfig_logging ToLower LogLevelNames pre new of
        Inl e \<Rightarrow> Inl e
      | Inr new' \<Rightarrow> LoadConfig_logging ToLower LogLevelNames post new')"
  by (induction pre arbitrary: new) (auto split: sum.splits)

text \<open>
  Claim C5. The directive with method \<^verbatim>\<open>"file stdout"\<close>, level \<^verbatim>\<open>"info"\<close>, type
  \<^verbatim>\<open>"server -connect"\<close> and a non-empty filename, its type lists empty as the document
  left them, is normalised to the sink flags file and stdout set and stderr unset, the
  included types \<^verbatim>\<open>server\<close> and the excluded types \<^verbatim>\<open>connect\<close>; \<open>ToLower\<close> leaves the
  lower-case words as they are, and \<^verbatim>\<open>info\<close> is a name of the level table. A directive
  whose type parsing ends with no included type fails with an error, and every
  normalised directive has an included type.
\<close>

theorem C5_file_stdout_directive:
  "(Method lc = ''file stdout'' \<and> LevelString lc = ''info'' \<and> TypeString lc = ''server -connect''
      \<and> Filename lc \<noteq> [] \<and> Types lc = [] \<and> ExcludedTypes lc = []
      \<and> ToLower ''file'' = ''file'' \<and> ToLower ''stdout'' = ''stdout'' \<and> ToLower ''info'' = ''info''
      \<and> LogLevelNames ''info'' = Some level
    \<longrightarrow> LoadConfig_logConfig ToLower LogLevelNames lc =
          Inr (lc\<lparr>MethodFile := True, MethodStdout := True, MethodStderr := False,
                  Level := level, Types := [''server''], ExcludedTypes := [''connect'']\<rparr>))
   \<and> (LoadConfig_types (strings_Split (TypeString lc) (CHR '' '')) (Types lc, ExcludedTypes lc)
         = Inr ([], excludedTypes)
      \<longrightarrow> (\<exists>e. LoadConfig_logConfig ToLower LogLevelNames lc = Inl (Error e)))
   \<and> (LoadConfig_logConfig ToLower LogLevelNames lc = Inr lc' \<longrightarrow> Types lc' \<noteq> [])"
proof (intro conjI impI)
  assume h: "Method lc = ''file stdout'' \<and> LevelString lc = ''info'' \<and> TypeString lc = ''server -connect''
      \<and> Filename lc \<noteq> [] \<and> Types lc = [] \<and> ExcludedTypes lc = []
      \<and> ToLower ''file'' = ''file'' \<and> ToLower ''stdout'' = ''stdout'' \<and> ToLower ''info'' = ''info''
      \<and> LogLevelNames ''info'' = Some level"
  then have m: "LoadConfig_methods ToLower (Method lc) = {''file'', ''stdout''}"
    by (simp add: LoadConfig_methods_def)
  from h have t: "LoadConfig_types (strings_Split (TypeString lc) (CHR '' '')) (Types lc, ExcludedTypes lc)
      = Inr ([''server''], [''connect''])"
    by simp
  from h m t show "LoadConfig_logConfig ToLower LogLevelNames lc =
          Inr (lc\<lparr>MethodFile := True, MethodStdout := True, MethodStderr := False,
                  Level := level, Types := [''server''], ExcludedTypes := [''connect'']\<rparr>)"
    by (simp add: LoadConfig_logConfig_def)
next
  assume "LoadConfig_types (strings_Split (TypeString lc) (CHR '' '')) (Types lc, ExcludedTypes lc)
         = Inr ([], excludedTypes)"
  then show "\<exists>e. LoadConfig_logConfig ToLower LogLevelNames lc = Inl (Error e)"
    by (auto simp: LoadConfig_logConfig_def Let_def split: option.split)
next
  assume "LoadConfig_logConfig ToLower LogLevelNames lc = Inr lc'"
  then show "Types lc' \<noteq> []"
    by (auto simp: LoadConfig_logConfig_def Let_def split: if_splits option.splits sum.splits)
qed

theorem C5_file_stdout_directive_witness:
  "LoadConfig_logConfig ascii_ToLower [''info'' \<mapsto> 1] logConfig_file_stdout =
     Inr (logConfig_file_stdout\<lparr>MethodFile := True, MethodStdout := True, MethodStderr := False,
            Level := 1, Types := [''server''], ExcludedTypes := [''connect'']\<rparr>)
   \<and> (\<exists>e. LoadConfig_logConfig ascii_ToLower [''info'' \<mapsto> 1]
            (logConfig_file_stdout\<lparr>TypeString := ''-connect''\<rparr>) = Inl (Error e))
   \<and> Types (logConfig_file_stdout\<lparr>MethodFile := True, MethodStdout := True, MethodStderr := False,
            Level := 1, Types := [''server''], ExcludedTypes := [''connect'']\<rparr>) \<noteq> []"
proof -
  let ?L = "[''info'' \<mapsto> (1::int)]"
  let ?r = "logConfig_file_stdout\<lparr>MethodFile := True, MethodStdout := True, MethodStderr := False,
            Level := 1, Types := [''server''], ExcludedTypes := [''connect'']\<rparr>"
  let ?x = "logConfig_file_stdout\<lparr>TypeString := ''-connect''\<rparr>"
  have h: "Method logConfig_file_stdout = ''file stdout'' \<and> LevelString logConfig_file_stdout = ''info''
      \<and> TypeString logConfig_file_stdout = ''server -connect''
      \<and> Filename logConfig_file_stdout \<noteq> [] \<and> Types logConfig_file_stdout = []
      \<and> ExcludedTypes logConfig_file_stdout = []
      \<and> ascii_ToLower ''file'' = ''file'' \<and> ascii_ToLower ''stdout'' = ''stdout''
      \<and> ascii_ToLower ''info'' = ''info'' \<and> ?L ''info'' = Some 1"
    by (simp add: logConfig_file_stdout_def ascii_ToLower_def)
  have x: "LoadConfig_types (strings_Split (TypeString ?x) (CHR '' '')) (Types ?x, ExcludedTypes ?x)
         = Inr ([], [''connect''])"
    by (simp add: logConfig_file_stdout_def)
  note A = C5_file_stdout_directive [of logConfig_file_stdout ascii_ToLower ?L 1 "[]" ?r,
      THEN conjunct1, THEN mp, OF h]
  note B = C5_file_stdout_directive [of ?x ascii_ToLower ?L 1 "[''connect'']" ?r,
      THEN conjunct2, THEN conjunct1, THEN mp, OF x]
  note C = C5_file_stdout_directive [of logConfig_file_stdout ascii_ToLower ?L 1 "[]" ?r,
      THEN conjunct2, THEN conjunct2, THEN mp, OF A]
  from A B C show ?thesis by (intro conjI)
qed

text \<open>
  Claim C6. A directive whose method string has a piece that is \<^verbatim>\<open>file\<close> in lower case,
  and whose filename is empty, fails with the file/filename mismatch error: the body of
  the loop returns it for that directive, and so does the loop over \<^verbatim>\<open>config.Logging\<close>
  when it reaches the directive, that is when the directives before it were normalised.
  A directive with a non-empty filename never fails with that error.
\<close>

theorem C6_file_without_filename:
  "(m \<in> set (strings_Split (Method lc) (CHR '' '')) \<and> m \<noteq> [] \<and> ToLower m = ''file''
      \<and> Filename lc = []
    \<longrightarrow> LoadConfig_logConfig ToLower LogLevelNames lc = Inl (Error errFileNoFilename)
      \<and> (\<forall>pre post new new'.
            LoadConfig_logging ToLower LogLevelNames pre new = Inr new'
            \<longrightarrow> LoadConfig_logging ToLower LogLevelNames (pre @ lc # post) new
                  = Inl (Error errFileNoFilename)))
   \<and> (Filename lc \<noteq> []
      \<longrightarrow> LoadConfig_logConfig ToLower LogLevelNames lc \<noteq> Inl (Error errFileNoFilename))"
proof (intro conjI impI)
  assume h: "m \<in> set (strings_Split (Method lc) (CHR '' '')) \<and> m \<noteq> [] \<and> ToLower m = ''file''
      \<and> Filename lc = []"
  then have "''file'' \<in> LoadConfig_methods ToLower (Method lc)"
    by (force simp: LoadConfig_methods_def)
  with h show one: "LoadConfig_logConfig ToLower LogLevelNames lc = Inl (Error errFileNoFilename)"
    by (simp add: LoadConfig_logConfig_def)
  show "\<forall>pre post new new'.
            LoadConfig_logging ToLower LogLevelNames pre new = Inr new'
            \<longrightarrow> LoadConfig_logging ToLower LogLevelNames (pre @ lc # post) new
                  = Inl (Error errFileNoFilename)"
    by (simp add: LoadConfig_logging_append one)
next
  assume "Filename lc \<noteq> []"
  then show "LoadConfig_logConfig ToLower LogLevelNames lc \<noteq> Inl (Error errFileNoFilename)"
    by (simp add: LoadConfig_logConfig_no_file)
qed

theorem C6_file_without_filename_witness:
  "LoadConfig_logConfig ascii_ToLower [''info'' \<mapsto> 1] (logConfig_file_stdout\<lparr>Method := ''stderr FILE'', Filename := []\<rparr>)
     = Inl (Error errFileNoFilename)
   \<and> LoadConfig_logging ascii_ToLower [''info'' \<mapsto> 1]
       [logConfig_file_stdout, logConfig_file_stdout\<lparr>Method := ''stderr FILE'', Filename := []\<rparr>] []
     = Inl (Error errFileNoFilename)
   \<and> LoadConfig_logConfig ascii_ToLower [''info'' \<mapsto> 1] logConfig_file_stdout
     \<noteq> Inl (Error errFileNoFilename)"
proof -
  let ?bad = "logConfig_file_stdout\<lparr>Method := ''stderr FILE'', Filename := []\<rparr>"
  have tok: "''FILE'' \<in> set (strings_Split (Method ?bad) (CHR '' '')) \<and> ''FILE'' \<noteq> []
      \<and> ascii_ToLower ''FILE'' = ''file'' \<and> Filename ?bad = []"
    by (simp add: logConfig_file_stdout_def ascii_ToLower_def)
  have pre: "LoadConfig_logging ascii_ToLower [''info'' \<mapsto> 1] [logConfig_file_stdout] []
      = Inr [logConfig_file_stdout\<lparr>MethodFile := True, MethodStdout := True, Level := 1,
               Types := [''server''], ExcludedTypes := [''connect'']\<rparr>]"
    by (simp add: logConfig_file_stdout_def LoadConfig_logConfig_def LoadConfig_methods_def
          ascii_ToLower_def)
  have fn: "Filename logConfig_file_stdout \<noteq> []"
    by (simp add: logConfig_file_stdout_def)
  note h = C6_file_without_filename [of "''FILE''" ?bad ascii_ToLower "[''info'' \<mapsto> 1]",
      THEN conjunct1, THEN mp, OF tok]
  note A = h [THEN conjunct1]
  note B = h [THEN conjunct2, rule_format, OF pre, of "[]"]
  note C = C6_file_without_filename [of "[]" logConfig_file_stdout ascii_ToLower
      "[''info'' \<mapsto> 1]", THEN conjunct2, THEN mp, OF fn]
  from A B C show ?thesis by simp
qed

text \<open>
  Claim C10. A directive none of whose method pieces is \<^verbatim>\<open>file\<close>, \<^verbatim>\<open>stdout\<close> or
  \<^verbatim>\<open>stderr\<close> in lower case (the empty method string is one) does not fail with the
  file/filename mismatch error, the only error of the method parsing; when its level is a
  name of the table and its type parsing ends with an included type, it is normalised,
  with the three sink flags unset.
\<close>

theorem C10_unrecognised_methods:
  "(\<forall>m \<in> set (strings_Split (Method lc) (CHR '' '')).
       m \<noteq> [] \<longrightarrow> ToLower m \<notin> {''file'', ''stdout'', ''stderr''})
   \<longrightarrow> LoadConfig_logConfig ToLower LogLevelNames lc \<noteq> Inl (Error errFileNoFilename)
     \<and> (LogLevelNames (ToLower (LevelString lc)) = Some level
          \<and> LoadConfig_types (strings_Split (TypeString lc) (CHR '' ''))
                (Types lc, ExcludedTypes lc) = Inr (types, excludedTypes)
          \<and> types \<noteq> []
        \<longrightarrow> LoadConfig_logConfig ToLower LogLevelNames lc =
              Inr (lc\<lparr>MethodFile := False, MethodStdout := False, MethodStderr := False,
                      Level := level, Types := types, ExcludedTypes := excludedTypes\<rparr>))"
proof (intro impI conjI)
  assume h: "\<forall>m \<in> set (strings_Split (Method lc) (CHR '' '')).
       m \<noteq> [] \<longrightarrow> ToLower m \<notin> {''file'', ''stdout'', ''stderr''}"
  then have m: "''file'' \<notin> LoadConfig_methods ToLower (Method lc)"
      "''stdout'' \<notin> LoadConfig_methods ToLower (Method lc)"
      "''stderr'' \<notin> LoadConfig_methods ToLower (Method lc)"
    by (auto simp: LoadConfig_methods_def)
  from m(1) show "LoadConfig_logConfig ToLower LogLevelNames lc \<noteq> Inl (Error errFileNoFilename)"
    by (simp add: LoadConfig_logConfig_no_file)
  assume "LogLevelNames (ToLower (LevelString lc)) = Some level
          \<and> LoadConfig_types (strings_Split (TypeString lc) (CHR '' ''))
                (Types lc, ExcludedTypes lc) = Inr (types, excludedTypes)
          \<and> types \<noteq> []"
  with m show "LoadConfig_logConfig ToLower LogLevelNames lc =
              Inr (lc\<lparr>MethodFile := False, MethodStdout := False, MethodStderr := False,
                      Level := level, Types := types, ExcludedTypes := excludedTypes\<rparr>)"
    by (simp add: LoadConfig_logConfig_def)
qed


theorem C10_unrecognised_methods_witness:
  "LoadConfig_logConfig ascii_ToLower [''info'' \<mapsto> 1] (logConfig_file_stdout\<lparr>Method := ''Syslog''\<rparr>)
     \<noteq> Inl (Error errFileNoFilename)
   \<and> LoadConfig_logConfig ascii_ToLower [''info'' \<mapsto> 1] (logConfig_file_stdout\<lparr>Method := ''Syslog''\<rparr>)
     = Inr (logConfig_file_stdout\<lparr>Method := ''Syslog'', MethodFile := False, MethodStdout := False,
              MethodStderr := False, Level := 1, Types := [''server''],
              ExcludedTypes := [''connect'']\<rparr>)"
proof -
  let ?L = "[''info'' \<mapsto> (1::int)]"
  let ?x = "logConfig_file_stdout\<lparr>Method := ''Syslog''\<rparr>"
  have h: "\<forall>m \<in> set (strings_Split (Method ?x) (CHR '' '')).
       m \<noteq> [] \<longrightarrow> ascii_ToLower m \<notin> {''file'', ''stdout'', ''stderr''}"
    by (simp add: logConfig_file_stdout_def ascii_ToLower_def)
  have v: "?L (ascii_ToLower (LevelString ?x)) = Some 1
          \<and> LoadConfig_types (strings_Split (TypeString ?x) (CHR '' ''))
                (Types ?x, ExcludedTypes ?x) = Inr ([''server''], [''connect''])
          \<and> [''server''] \<noteq> []"
    by (simp add: logConfig_file_stdout_def ascii_ToLower_def)
  note r = C10_unrecognised_methods [of ?x ascii_ToLower ?L 1 "[''server'']" "[''connect'']",
      THEN mp, OF h]
  from r [THEN conjunct1] r [THEN conjunct2, THEN mp, OF v] show ?thesis by simp
qed

section \<open>Properties of the operator classes\<close>

text \<open>
  The equation of the loop unfolds for ever: it is used where it is named, on concrete
  inputs and in the inductions below.
\<close>

declare OperatorClasses_loop.simps [simp del]

text \<open>The six ways a pass treats the name it visits, as a rule for case analysis.\<close>

lemma OperatorClasses_pass_Cons_cases:
  obtains
    (skip) "map_of operClasses name = None"
      "OperatorClasses_pass ToLower operClasses (name # names) (ocs, anyMissing)
         = OperatorClasses_pass ToLower operClasses names (ocs, anyMissing)"
  | (exists) info where "map_of operClasses name = Some info" "map_of ocs name \<noteq> None"
      "OperatorClasses_pass ToLower operClasses (name # names) (ocs, anyMissing)
         = OperatorClasses_pass ToLower operClasses names (ocs, anyMissing)"
  | (missing) info where "map_of operClasses name = Some info" "map_of ocs name = None"
      "Extends info \<noteq> []" "map_of ocs (Extends info) = None"
      "map_of operClasses (Extends info) = None"
      "OperatorClasses_pass ToLower operClasses (name # names) (ocs, anyMissing)
         = Inl (Error (errMissingBase name (Extends info)))"
  | (deferred) info where "map_of operClasses name = Some info" "map_of ocs name = None"
      "Extends info \<noteq> []" "map_of ocs (Extends info) = None"
      "map_of operClasses (Extends info) \<noteq> None"
      "OperatorClasses_pass ToLower operClasses (name # names) (ocs, anyMissing)
         = OperatorClasses_pass ToLower operClasses names (ocs, True)"
  | (fail) info e where "map_of operClasses name = Some info" "map_of ocs name = None"
      "Extends info = [] \<or> map_of ocs (Extends info) \<noteq> None"
      "new_OperClass ToLower ocs info = Inl e"
      "OperatorClasses_pass ToLower operClasses (name # names) (ocs, anyMissing) = Inl e"
  | (new) info oc where "map_of operClasses name = Some info" "map_of ocs name = None"
      "Extends info = [] \<or> map_of ocs (Extends info) \<noteq> None"
      "new_OperClass ToLower ocs info = Inr oc"
      "OperatorClasses_pass ToLower operClasses (name # names) (ocs, anyMissing)
         = OperatorClasses_pass ToLower operClasses names (ocs @ [(name, oc)], anyMissing)"
proof (cases "map_of operClasses name")
  case None
  then show ?thesis using skip by simp
next
  case (Some info)
  show ?thesis
  proof (cases "map_of ocs name = None")
    case False
    with Some show ?thesis using exists [of info] by simp
  next
    case fresh: True
    show ?thesis
    proof (cases "Extends info \<noteq> [] \<and> map_of ocs (Extends info) = None")
      case True
      show ?thesis
      proof (cases "map_of operClasses (Extends info) = None")
        case True
        with Some fresh \<open>Extends info \<noteq> [] \<and> map_of ocs (Extends info) = None\<close>
        show ?thesis using missing [of info] by auto
      next
        case False
        with Some fresh \<open>Extends info \<noteq> [] \<and> map_of ocs (Extends info) = None\<close>
        show ?thesis using deferred [of info] by auto
      qed
    next
      case False
      then have ready: "Extends info = [] \<or> map_of ocs (Extends info) \<noteq> None" by auto
      show ?thesis
      proof (cases "new_OperClass ToLower ocs info")
        case (Inl e)
        with Some fresh ready show ?thesis using fail [of info e] by auto
      next
        case (Inr oc)
        with Some fresh ready show ?thesis using new [of info oc] by auto
      qed
    qed
  qed
qed

text \<open>
  \<^verbatim>\<open>strings.Contains\<close> holds of no string shorter than the substring, so the vowel test
  of the whois line, which looks for all of \<^verbatim>\<open>"aeiou"\<close> in the lower-cased first
  character, fails whenever that character's lower case has fewer than five bytes.
\<close>

lemma strings_Contains_length:
  "strings_Contains s substr \<Longrightarrow> length substr \<le> length s"
proof (induction s)
  case Nil
  then show ?case by simp
next
  case (Cons c s)
  from Cons.prems have "take (length substr) (c # s) = substr \<or> strings_Contains s substr"
    by (simp add: strings_HasPrefix_def)
  then show ?case
  proof
    assume "take (length substr) (c # s) = substr"
    then have "length substr = min (length (c # s)) (length substr)"
      by (metis length_take)
    then show ?thesis by simp
  next
    assume "strings_Contains s substr"
    with Cons.IH show ?thesis by simp
  qed
qed

lemma default_WhoisLine_is_a:
  "length (ToLower (string_of_byte c)) < 5
   \<Longrightarrow> default_WhoisLine ToLower (c # title) = Inr (''is a '' @ c # title)"
  using strings_Contains_length [of "ToLower (string_of_byte c)" "''aeiou''"]
  by (auto simp: default_WhoisLine_def)

text \<open>
  A class with neither whois line nor title cannot be assembled, so it never enters
  \<^verbatim>\<open>ocs\<close>, every pass that visits it and returns has set \<^verbatim>\<open>anyMissing\<close>, and the
  loop never returns a map.
\<close>

lemma new_OperClass_untitled:
  "OperClassConfig.WhoisLine info = [] \<Longrightarrow> OperClassConfig.Title info = []
   \<Longrightarrow> new_OperClass ToLower ocs info = Inl Panic"
  by (simp add: new_OperClass_def default_WhoisLine_def)

lemma OperatorClasses_pass_untitled_absent:
  "map_of operClasses name = Some info \<Longrightarrow> OperClassConfig.WhoisLine info = []
   \<Longrightarrow> OperClassConfig.Title info = [] \<Longrightarrow> map_of ocs name = None
   \<Longrightarrow> OperatorClasses_pass ToLower operClasses names (ocs, anyMissing) = Inr (ocs', anyMissing')
   \<Longrightarrow> map_of ocs' name = None \<and> (name \<in> set names \<longrightarrow> anyMissing')"
proof (induction names arbitrary: ocs anyMissing)
  case Nil
  then show ?case by simp
next
  case (Cons n names)
  show ?case
  proof (cases rule: OperatorClasses_pass_Cons_cases [of operClasses n ToLower names ocs anyMissing])
    case skip
    with Cons.prems have ne: "n \<noteq> name" by auto
    from Cons.prems(5) skip(2) have
      r: "OperatorClasses_pass ToLower operClasses names (ocs, anyMissing) = Inr (ocs', anyMissing')"
      by simp
    from Cons.IH [OF Cons.prems(1-4) r] ne show ?thesis by simp
  next
    case (exists i)
    with Cons.prems have ne: "n \<noteq> name" by auto
    from Cons.prems(5) exists(3) have
      r: "OperatorClasses_pass ToLower operClasses names (ocs, anyMissing) = Inr (ocs', anyMissing')"
      by simp
    from Cons.IH [OF Cons.prems(1-4) r] ne show ?thesis by simp
  next
    case (missing i)
    with Cons.prems show ?thesis by simp
  next
    case (deferred i)
    with Cons.prems have r: "OperatorClasses_pass ToLower operClasses names (ocs, True)
        = Inr (ocs', anyMissing')" by simp
    from OperatorClasses_pass_appends [OF r] have "anyMissing'" by blast
    with Cons.IH [OF Cons.prems(1-4) r] show ?thesis by simp
  next
    case (fail i e)
    with Cons.prems show ?thesis by simp
  next
    case (new i oc)
    have "n \<noteq> name"
    proof
      assume "n = name"
      with new Cons.prems(1) have "i = info" by simp
      with new(4) new_OperClass_untitled [OF Cons.prems(2,3), of ToLower ocs] show False by simp
    qed
    then have a: "map_of (ocs @ [(n, oc)]) name = None"
      using Cons.prems(4) by (simp add: map_of_eq_None_iff)
    from Cons.prems(5) new(5) have
      r: "OperatorClasses_pass ToLower operClasses names (ocs @ [(n, oc)], anyMissing)
         = Inr (ocs', anyMissing')"
      by simp
    from Cons.IH [OF Cons.prems(1-3) a r] \<open>n \<noteq> name\<close> show ?thesis by simp
  qed
qed

lemma OperatorClasses_loop_untitled:
  "map_of operClasses name = Some info \<Longrightarrow> OperClassConfig.WhoisLine info = []
   \<Longrightarrow> OperClassConfig.Title info = [] \<Longrightarrow> \<forall>i. name \<in> set (sched i)
   \<Longrightarrow> map_of ocs name = None
   \<Longrightarrow> OperatorClasses_loop ToLower operClasses sched i lenOfLastOcs ocs \<noteq> Inr ocs'"
proof (induction ToLower operClasses sched i lenOfLastOcs ocs rule: OperatorClasses_loop.induct)
  case (1 ToLower operClasses sched i lenOfLastOcs ocs)
  show ?case
  proof (cases "lenOfLastOcs = int (length ocs)")
    case True
    then show ?thesis by (subst OperatorClasses_loop.simps) simp
  next
    case False
    show ?thesis
    proof (cases "OperatorClasses_pass ToLower operClasses (sched i) (ocs, False)")
      case (Inl e)
      with False show ?thesis by (subst OperatorClasses_loop.simps) simp
    next
      case (Inr st)
      obtain ocs1 anyMissing where st: "st = (ocs1, anyMissing)" by (cases st)
      from OperatorClasses_pass_untitled_absent [OF "1.prems"(1-3,5) Inr [unfolded st]] "1.prems"(4)
      have a: "map_of ocs1 name = None" "anyMissing" by auto
      from "1.IH" [OF False Inr [unfolded st] refl _ "1.prems"(1-4) a(1)] a(2)
      have "OperatorClasses_loop ToLower operClasses sched (Suc i) (int (length ocs)) ocs1 \<noteq> Inr ocs'"
        by simp
      with False Inr st a(2) show ?thesis by (subst OperatorClasses_loop.simps) simp
    qed
  qed
qed

text \<open>The definitions a run of \<^verbatim>\<open>OperatorClasses\<close> on a concrete input unfolds.\<close>

lemmas eval_OperatorClasses =
  OperatorClasses_def OperatorClasses_loop.simps new_OperClass_def default_WhoisLine_def string_of_byte_def
  ascii_ToLower_def strings_HasPrefix_def errMissingBase_def errLoopingDependency_def

text \<open>
  Claim C2 says that a class without a whois line gets \<^verbatim>\<open>"is an <Title>"\<close> when its
  title starts with a vowel, so \<^verbatim>\<open>"is an Admin"\<close> for the title \<^verbatim>\<open>Admin\<close>. The code
  calls \<^verbatim>\<open>strings.Contains\<close> with its arguments exchanged, looking for \<^verbatim>\<open>"aeiou"\<close>
  in the one character, and never appends the \<^verbatim>\<open>n\<close>: the class titled \<^verbatim>\<open>Admin\<close>
  gets \<^verbatim>\<open>"is a Admin"\<close> (and the one titled \<^verbatim>\<open>Bot\<close> gets \<^verbatim>\<open>"is a Bot"\<close>).
\<close>

theorem C2_whois_line_never_an:
  "OperatorClasses ascii_ToLower [(''admin'', operClass_admin), (''bot'', operClass_bot)]
     (\<lambda>i. [''admin'', ''bot'']) =
   Inr (map_of
     [(''admin'', \<lparr>OperClass.Title = ''Admin'', WhoisLine = ''is a Admin'',
                   Capabilities = {''oper:rehash'', ''oper:die''}\<rparr>),
      (''bot'', \<lparr>OperClass.Title = ''Bot'', WhoisLine = ''is a Bot'',
                 Capabilities = {''oper:local_kill''}\<rparr>)])"
  by (simp add: eval_OperatorClasses operClass_admin_def operClass_bot_def)

text \<open>
  Claim C1 says that \<^verbatim>\<open>OperatorClasses\<close> succeeds on every set of classes without
  cycles and dangling references. On a flat set with a class that has neither title nor
  whois line the code panics at \<^verbatim>\<open>oc.Title[0]\<close>.
\<close>

theorem C1_untitled_class_panics:
  "OperatorClasses ascii_ToLower [(''admin'', operClass_admin), (''untitled'', operClass_untitled)]
     (\<lambda>i. [''admin'', ''untitled'']) = Inl Panic"
  by (simp add: eval_OperatorClasses operClass_admin_def operClass_untitled_def)

text \<open>
  Claim C4 says that a set with a class extending a missing base always fails with the
  missing-base error. When the pass visits a class with neither title nor whois line
  first, the code panics instead; visiting the dangling class first gives the error.
\<close>

theorem C4_untitled_class_before_dangling:
  "OperatorClasses ascii_ToLower [(''untitled'', operClass_untitled), (''helper'', operClass_helper)]
     (\<lambda>i. [''untitled'', ''helper'']) = Inl Panic
   \<and> OperatorClasses ascii_ToLower [(''untitled'', operClass_untitled), (''helper'', operClass_helper)]
     (\<lambda>i. [''helper'', ''untitled'']) = Inl (Error (errMissingBase ''helper'' ''missing''))"
  by (simp add: eval_OperatorClasses operClass_helper_def operClass_untitled_def)

text \<open>
  Claim C9. Assembling a class whose whois line and title are both empty panics at the
  index \<^verbatim>\<open>oc.Title[0]\<close>; and \<^verbatim>\<open>OperatorClasses\<close> returns no map for a set of classes
  that has such a class, whenever every pass enumerates that class.
\<close>

theorem C9_untitled_class:
  "(OperClassConfig.WhoisLine info = [] \<and> OperClassConfig.Title info = []
      \<longrightarrow> new_OperClass ToLower ocs info = Inl Panic)
   \<and> (map_of operClasses name = Some info
        \<and> OperClassConfig.WhoisLine info = [] \<and> OperClassConfig.Title info = []
        \<and> (\<forall>i. name \<in> set (sched i))
      \<longrightarrow> (\<forall>classes. OperatorClasses ToLower operClasses sched \<noteq> Inr classes))"
proof (intro conjI impI allI)
  assume "OperClassConfig.WhoisLine info = [] \<and> OperClassConfig.Title info = []"
  then show "new_OperClass ToLower ocs info = Inl Panic"
    by (simp add: new_OperClass_untitled)
next
  fix classes
  assume h: "map_of operClasses name = Some info
        \<and> OperClassConfig.WhoisLine info = [] \<and> OperClassConfig.Title info = []
        \<and> (\<forall>i. name \<in> set (sched i))"
  have "OperatorClasses_loop ToLower operClasses sched 0 (- 1) [] \<noteq> Inr ocs'" for ocs'
    by (rule OperatorClasses_loop_untitled [of operClasses name info]) (use h in simp_all)
  then show "OperatorClasses ToLower operClasses sched \<noteq> Inr classes"
    by (auto simp: OperatorClasses_def split: sum.splits)
qed

theorem C9_untitled_class_witness:
  "new_OperClass ascii_ToLower [] operClass_untitled = Inl Panic
   \<and> (\<forall>classes. OperatorClasses ascii_ToLower [(''untitled'', operClass_untitled)]
          (\<lambda>i. [''untitled'']) \<noteq> Inr classes)
   \<and> OperatorClasses ascii_ToLower [(''untitled'', operClass_untitled)]
          (\<lambda>i. [''untitled'']) = Inl Panic"
proof -
  have e: "OperClassConfig.WhoisLine operClass_untitled = []
      \<and> OperClassConfig.Title operClass_untitled = []"
    by (simp add: operClass_untitled_def)
  have h: "map_of [(''untitled'', operClass_untitled)] ''untitled'' = Some operClass_untitled
        \<and> OperClassConfig.WhoisLine operClass_untitled = []
        \<and> OperClassConfig.Title operClass_untitled = []
        \<and> (\<forall>i. ''untitled'' \<in> set ((\<lambda>i. [''untitled'']) i))"
    by (simp add: operClass_untitled_def)
  note A = C9_untitled_class [of operClass_untitled ascii_ToLower "[]"
      "[(''untitled'', operClass_untitled)]" "''untitled''" "\<lambda>i. [''untitled'']",
      THEN conjunct1, THEN mp, OF e]
  note B = C9_untitled_class [of operClass_untitled ascii_ToLower "[]"
      "[(''untitled'', operClass_untitled)]" "''untitled''" "\<lambda>i. [''untitled'']",
      THEN conjunct2, THEN mp, OF h]
  have C: "OperatorClasses ascii_ToLower [(''untitled'', operClass_untitled)]
          (\<lambda>i. [''untitled'']) = Inl Panic"
    by (simp add: eval_OperatorClasses operClass_untitled_def)
  from A B C show ?thesis by (intro conjI)
qed

section \<open>Resolution of the extends hierarchy\<close>

text \<open>
  A class has at most one parent, so its ancestors are itself and the ancestors of its
  parent, and its inherited capabilities are its own and those its parent inherits.
\<close>

lemma extends_rel_iff:
  "map_of operClasses name = Some info
   \<Longrightarrow> (name, b) \<in> extends_rel operClasses \<longleftrightarrow> Extends info \<noteq> [] \<and> b = Extends info"
  by (auto simp: extends_rel_def)

lemma ancestors_unfold:
  assumes "map_of operClasses name = Some info"
  shows "{a. (name, a) \<in> (extends_rel operClasses)\<^sup>*} =
           insert name (if Extends info = [] then {}
                        else {a. (Extends info, a) \<in> (extends_rel operClasses)\<^sup>*})"
proof (intro set_eqI iffI)
  fix a
  assume "a \<in> {a. (name, a) \<in> (extends_rel operClasses)\<^sup>*}"
  then have "(name, a) \<in> (extends_rel operClasses)\<^sup>*" by simp
  then show "a \<in> insert name (if Extends info = [] then {}
                        else {a. (Extends info, a) \<in> (extends_rel operClasses)\<^sup>*})"
  proof (cases rule: converse_rtranclE)
    case base
    then show ?thesis by simp
  next
    case (step b)
    with extends_rel_iff [OF assms] show ?thesis by auto
  qed
next
  fix a
  assume a: "a \<in> insert name (if Extends info = [] then {}
                        else {a. (Extends info, a) \<in> (extends_rel operClasses)\<^sup>*})"
  show "a \<in> {a. (name, a) \<in> (extends_rel operClasses)\<^sup>*}"
  proof (cases "a = name")
    case True
    then show ?thesis by simp
  next
    case False
    with a have e: "Extends info \<noteq> []" "(Extends info, a) \<in> (extends_rel operClasses)\<^sup>*"
      by (auto split: if_splits)
    from e(1) extends_rel_iff [OF assms] have "(name, Extends info) \<in> extends_rel operClasses"
      by simp
    with e(2) show ?thesis by (simp add: converse_rtrancl_into_rtrancl)
  qed
qed

lemma inherited_capabilities_unfold:
  assumes "map_of operClasses name = Some info"
  shows "inherited_capabilities operClasses name =
           (if Extends info = [] then {} else inherited_capabilities operClasses (Extends info))
           \<union> set (OperClassConfig.Capabilities info)"
  unfolding inherited_capabilities_def ancestors_unfold [OF assms]
  using assms by (auto simp: own_capabilities_def)

lemma finite_extends_rel: "finite (extends_rel operClasses)"
proof -
  have "extends_rel operClasses \<subseteq> (\<lambda>(name, info). (name, Extends info)) ` set operClasses"
    by (auto simp: extends_rel_def image_iff dest!: map_of_SomeD)
  then show ?thesis by (rule finite_subset) simp
qed

text \<open>
  Assembling a class fails only by the panic on an untitled class; a class that is
  assembled has the title and the whois line of its record, and the capabilities of the
  base found in \<^verbatim>\<open>ocs\<close> with its own.
\<close>

lemma new_OperClass_failure:
  "new_OperClass ToLower ocs info = Inl e \<Longrightarrow> e = Panic \<and> untitled info"
  by (auto simp: new_OperClass_def default_WhoisLine_def untitled_def Let_def
           split: if_splits list.splits)

lemma new_OperClass_success:
  assumes "new_OperClass ToLower ocs info = Inr c"
  shows "\<not> untitled info"
    and "OperClass.Title c = OperClassConfig.Title info"
    and "OperClass.WhoisLine c = resolved_WhoisLine ToLower info"
    and "OperClass.Capabilities c =
           (if Extends info = [] then {}
            else (case map_of ocs (Extends info) of
                    None \<Rightarrow> {}
                  | Some base \<Rightarrow> OperClass.Capabilities base))
           \<union> set (OperClassConfig.Capabilities info)"
  using assms
  by (auto simp: new_OperClass_def default_WhoisLine_def untitled_def Let_def
        resolved_WhoisLine_def split: if_splits list.splits)

text \<open>
  The invariant of the loop: every class in \<^verbatim>\<open>ocs\<close> is the resolution of a titled class
  of the document.
\<close>

definition assembled :: "(string \<Rightarrow> string) \<Rightarrow> (string \<times> OperClassConfig) list
    \<Rightarrow> (string \<times> OperClass) list \<Rightarrow> bool" where
  "assembled ToLower operClasses ocs =
     (\<forall>name c. map_of ocs name = Some c
        \<longrightarrow> resolved ToLower operClasses name = Some c
          \<and> (\<exists>info. map_of operClasses name = Some info \<and> \<not> untitled info))"

lemma assembled_Nil: "assembled ToLower operClasses []"
  by (simp add: assembled_def)

lemma assembled_new:
  assumes inv: "assembled ToLower operClasses ocs"
    and info: "map_of operClasses name = Some info"
    and ready: "Extends info = [] \<or> map_of ocs (Extends info) \<noteq> None"
    and new: "new_OperClass ToLower ocs info = Inr c"
  shows "assembled ToLower operClasses (ocs @ [(name, c)])"
proof -
  have caps: "OperClass.Capabilities c = inherited_capabilities operClasses name"
  proof (cases "Extends info = []")
    case True
    with new_OperClass_success(4) [OF new] inherited_capabilities_unfold [OF info]
    show ?thesis by simp
  next
    case False
    with ready obtain base where base: "map_of ocs (Extends info) = Some base" by auto
    with inv have "resolved ToLower operClasses (Extends info) = Some base"
      by (simp add: assembled_def)
    then have "OperClass.Capabilities base = inherited_capabilities operClasses (Extends info)"
      by (auto simp: resolved_def split: option.splits)
    with False base new_OperClass_success(4) [OF new] inherited_capabilities_unfold [OF info]
    show ?thesis by simp
  qed
  with new_OperClass_success(2,3) [OF new] info
  have r: "resolved ToLower operClasses name = Some c"
    by (simp add: resolved_def)
  show ?thesis
    unfolding assembled_def
  proof (intro allI impI)
    fix k d
    assume "map_of (ocs @ [(name, c)]) k = Some d"
    then have "map_of ocs k = Some d \<or> (k = name \<and> d = c)"
      by (auto simp: map_add_Some_iff split: if_splits)
    then show "resolved ToLower operClasses k = Some d
          \<and> (\<exists>info. map_of operClasses k = Some info \<and> \<not> untitled info)"
    proof
      assume "map_of ocs k = Some d"
      with inv show ?thesis by (simp add: assembled_def)
    next
      assume "k = name \<and> d = c"
      with r info new_OperClass_success(1) [OF new] show ?thesis by auto
    qed
  qed
qed

text \<open>
  A pass keeps what \<^verbatim>\<open>ocs\<close> has and the invariant; without dangling references it fails
  only by the panic; if it returns, it has assembled every visited class that was ready
  when the pass began, and all visited classes when \<^verbatim>\<open>anyMissing\<close> is unset; and it
  changes nothing once every class is assembled.
\<close>

lemma OperatorClasses_pass_mono:
  assumes "OperatorClasses_pass ToLower operClasses names (ocs, anyMissing) = Inr (ocs', anyMissing')"
    and "map_of ocs k \<noteq> None"
  shows "map_of ocs' k \<noteq> None"
proof -
  from OperatorClasses_pass_appends [OF assms(1)] obtain added where "ocs' = ocs @ added"
    by blast
  with assms(2) show ?thesis by (auto simp: map_add_Some_iff)
qed

lemma OperatorClasses_pass_assembled:
  "assembled ToLower operClasses ocs
   \<Longrightarrow> OperatorClasses_pass ToLower operClasses names (ocs, anyMissing) = Inr (ocs', anyMissing')
   \<Longrightarrow> assembled ToLower operClasses ocs'"
proof (induction names arbitrary: ocs anyMissing)
  case Nil
  then show ?case by simp
next
  case (Cons n names)
  show ?case
  proof (cases rule: OperatorClasses_pass_Cons_cases [of operClasses n ToLower names ocs anyMissing])
    case skip
    with Cons.prems(2) have
      "OperatorClasses_pass ToLower operClasses names (ocs, anyMissing) = Inr (ocs', anyMissing')"
      by simp
    from Cons.IH [OF Cons.prems(1) this] show ?thesis .
  next
    case (exists i)
    with Cons.prems(2) have
      "OperatorClasses_pass ToLower operClasses names (ocs, anyMissing) = Inr (ocs', anyMissing')"
      by simp
    from Cons.IH [OF Cons.prems(1) this] show ?thesis .
  next
    case (missing i)
    with Cons.prems(2) show ?thesis by simp
  next
    case (deferred i)
    with Cons.prems(2) have
      "OperatorClasses_pass ToLower operClasses names (ocs, True) = Inr (ocs', anyMissing')"
      by simp
    from Cons.IH [OF Cons.prems(1) this] show ?thesis .
  next
    case (fail i e)
    with Cons.prems(2) show ?thesis by simp
  next
    case (new i c)
    from Cons.prems(2) new(5) have
      r: "OperatorClasses_pass ToLower operClasses names (ocs @ [(n, c)], anyMissing)
            = Inr (ocs', anyMissing')"
      by simp
    from Cons.IH [OF assembled_new [OF Cons.prems(1) new(1,3,4)] r] show ?thesis .
  qed
qed

lemma OperatorClasses_pass_failure:
  "no_dangling operClasses
   \<Longrightarrow> OperatorClasses_pass ToLower operClasses names (ocs, anyMissing) = Inl e
   \<Longrightarrow> e = Panic \<and> (\<exists>name info. map_of operClasses name = Some info \<and> untitled info)"
proof (induction names arbitrary: ocs anyMissing)
  case Nil
  then show ?case by simp
next
  case (Cons n names)
  show ?case
  proof (cases rule: OperatorClasses_pass_Cons_cases [of operClasses n ToLower names ocs anyMissing])
    case skip
    with Cons.prems(2) have
      "OperatorClasses_pass ToLower operClasses names (ocs, anyMissing) = Inl e" by simp
    from Cons.IH [OF Cons.prems(1) this] show ?thesis .
  next
    case (exists i)
    with Cons.prems(2) have
      "OperatorClasses_pass ToLower operClasses names (ocs, anyMissing) = Inl e" by simp
    from Cons.IH [OF Cons.prems(1) this] show ?thesis .
  next
    case (missing i)
    from Cons.prems(1) missing(1,3) have "map_of operClasses (Extends i) \<noteq> None"
      unfolding no_dangling_def by blast
    with missing(5) show ?thesis by simp
  next
    case (deferred i)
    with Cons.prems(2) have
      "OperatorClasses_pass ToLower operClasses names (ocs, True) = Inl e" by simp
    from Cons.IH [OF Cons.prems(1) this] show ?thesis .
  next
    case (fail i e')
    with Cons.prems(2) have "e' = e" by simp
    with new_OperClass_failure [OF fail(4)] fail(1) show ?thesis by auto
  next
    case (new i c)
    with Cons.prems(2) have
      "OperatorClasses_pass ToLower operClasses names (ocs @ [(n, c)], anyMissing) = Inl e"
      by simp
    from Cons.IH [OF Cons.prems(1) this] show ?thesis .
  qed
qed

lemma OperatorClasses_pass_ready:
  "OperatorClasses_pass ToLower operClasses names (ocs, anyMissing) = Inr (ocs', anyMissing')
   \<Longrightarrow> name \<in> set names \<Longrightarrow> map_of operClasses name = Some info
   \<Longrightarrow> Extends info = [] \<or> map_of ocs (Extends info) \<noteq> None
   \<Longrightarrow> map_of ocs' name \<noteq> None"
proof (induction names arbitrary: ocs anyMissing)
  case Nil
  then show ?case by simp
next
  case (Cons n names)
  show ?case
  proof (cases rule: OperatorClasses_pass_Cons_cases [of operClasses n ToLower names ocs anyMissing])
    case skip
    with Cons.prems have ne: "name \<in> set names" by auto
    from Cons.prems(1) skip(2) have
      "OperatorClasses_pass ToLower operClasses names (ocs, anyMissing) = Inr (ocs', anyMissing')"
      by simp
    from Cons.IH [OF this ne Cons.prems(3,4)] show ?thesis .
  next
    case (exists i)
    from Cons.prems(1) exists(3) have
      r: "OperatorClasses_pass ToLower operClasses names (ocs, anyMissing) = Inr (ocs', anyMissing')"
      by simp
    show ?thesis
    proof (cases "n = name")
      case True
      with exists(2) OperatorClasses_pass_mono [OF r] show ?thesis by simp
    next
      case False
      with Cons.prems(2) have "name \<in> set names" by simp
      from Cons.IH [OF r this Cons.prems(3,4)] show ?thesis .
    qed
  next
    case (missing i)
    with Cons.prems(1) show ?thesis by simp
  next
    case (deferred i)
    from Cons.prems(1) deferred(6) have
      r: "OperatorClasses_pass ToLower operClasses names (ocs, True) = Inr (ocs', anyMissing')"
      by simp
    have "n \<noteq> name"
    proof
      assume "n = name"
      with deferred(1) Cons.prems(3) have "i = info" by simp
      with deferred(3,4) Cons.prems(4) show False by simp
    qed
    with Cons.prems(2) have "name \<in> set names" by simp
    from Cons.IH [OF r this Cons.prems(3,4)] show ?thesis .
  next
    case (fail i e)
    with Cons.prems(1) show ?thesis by simp
  next
    case (new i c)
    from Cons.prems(1) new(5) have
      r: "OperatorClasses_pass ToLower operClasses names (ocs @ [(n, c)], anyMissing)
            = Inr (ocs', anyMissing')"
      by simp
    show ?thesis
    proof (cases "n = name")
      case True
      then have "map_of (ocs @ [(n, c)]) name \<noteq> None" by (simp add: map_add_Some_iff)
      from OperatorClasses_pass_mono [OF r this] show ?thesis .
    next
      case False
      with Cons.prems(2) have in_rest: "name \<in> set names" by simp
      from Cons.prems(4) have
        "Extends info = [] \<or> map_of (ocs @ [(n, c)]) (Extends info) \<noteq> None"
        by (auto simp: map_add_Some_iff)
      from Cons.IH [OF r in_rest Cons.prems(3) this] show ?thesis .
    qed
  qed
qed

lemma OperatorClasses_pass_complete:
  "OperatorClasses_pass ToLower operClasses names (ocs, anyMissing) = Inr (ocs', False)
   \<Longrightarrow> name \<in> set names \<Longrightarrow> map_of operClasses name \<noteq> None
   \<Longrightarrow> map_of ocs' name \<noteq> None"
proof (induction names arbitrary: ocs anyMissing)
  case Nil
  then show ?case by simp
next
  case (Cons n names)
  show ?case
  proof (cases rule: OperatorClasses_pass_Cons_cases [of operClasses n ToLower names ocs anyMissing])
    case skip
    with Cons.prems have ne: "name \<in> set names" by auto
    from Cons.prems(1) skip(2) have
      "OperatorClasses_pass ToLower operClasses names (ocs, anyMissing) = Inr (ocs', False)"
      by simp
    from Cons.IH [OF this ne Cons.prems(3)] show ?thesis .
  next
    case (exists i)
    from Cons.prems(1) exists(3) have
      r: "OperatorClasses_pass ToLower operClasses names (ocs, anyMissing) = Inr (ocs', False)"
      by simp
    show ?thesis
    proof (cases "n = name")
      case True
      with exists(2) OperatorClasses_pass_mono [OF r] show ?thesis by simp
    next
      case False
      with Cons.prems(2) have "name \<in> set names" by simp
      from Cons.IH [OF r this Cons.prems(3)] show ?thesis .
    qed
  next
    case (missing i)
    with Cons.prems(1) show ?thesis by simp
  next
    case (deferred i)
    from Cons.prems(1) deferred(6) have
      r: "OperatorClasses_pass ToLower operClasses names (ocs, True) = Inr (ocs', False)"
      by simp
    from OperatorClasses_pass_appends [OF r] show ?thesis by simp
  next
    case (fail i e)
    with Cons.prems(1) show ?thesis by simp
  next
    case (new i c)
    from Cons.prems(1) new(5) have
      r: "OperatorClasses_pass ToLower operClasses names (ocs @ [(n, c)], anyMissing)
            = Inr (ocs', False)"
      by simp
    show ?thesis
    proof (cases "n = name")
      case True
      then have "map_of (ocs @ [(n, c)]) name \<noteq> None" by (simp add: map_add_Some_iff)
      from OperatorClasses_pass_mono [OF r this] show ?thesis .
    next
      case False
      with Cons.prems(2) have "name \<in> set names" by simp
      from Cons.IH [OF r this Cons.prems(3)] show ?thesis .
    qed
  qed
qed

lemma OperatorClasses_pass_all_assembled:
  "\<forall>name. map_of operClasses name \<noteq> None \<longrightarrow> map_of ocs name \<noteq> None
   \<Longrightarrow> OperatorClasses_pass ToLower operClasses names (ocs, anyMissing) = Inr (ocs, anyMissing)"
proof (induction names)
  case Nil
  then show ?case by simp
next
  case (Cons n names)
  show ?case
  proof (cases "map_of operClasses n")
    case None
    with Cons show ?thesis by simp
  next
    case (Some info)
    with Cons.prems have "map_of ocs n \<noteq> None" by simp
    with Some Cons show ?thesis by simp
  qed
qed

text \<open>
  Progress: without cycles and dangling references, a pass over all the classes that
  returns while a class is not assembled has assembled one more. Among the classes not
  assembled one has no parent among them, the relation being well founded; its parent,
  if any, is assembled, and the pass assembles it.
\<close>

lemma OperatorClasses_pass_progress:
  assumes nd: "no_dangling operClasses" and nc: "no_cycles operClasses"
    and enum: "fst ` set operClasses \<subseteq> set names"
    and pass: "OperatorClasses_pass ToLower operClasses names (ocs, anyMissing)
                 = Inr (ocs', anyMissing')"
    and todo: "map_of operClasses k \<noteq> None" "map_of ocs k = None"
  shows "length ocs < length ocs'"
proof -
  let ?Q = "{n. map_of operClasses n \<noteq> None \<and> map_of ocs n = None}"
  have "wf ((extends_rel operClasses)\<inverse>)"
    using finite_extends_rel nc unfolding no_cycles_def by (rule finite_acyclic_wf_converse)
  moreover from todo have "k \<in> ?Q" by simp
  ultimately obtain z where z: "z \<in> ?Q"
    and least: "\<And>y. (y, z) \<in> (extends_rel operClasses)\<inverse> \<Longrightarrow> y \<notin> ?Q"
    by (rule wfE_min) blast
  from z obtain info where info: "map_of operClasses z = Some info" by auto
  have ready: "Extends info = [] \<or> map_of ocs (Extends info) \<noteq> None"
  proof (cases "Extends info = []")
    case True
    then show ?thesis by simp
  next
    case False
    with info have "(z, Extends info) \<in> extends_rel operClasses"
      by (simp add: extends_rel_iff)
    then have "Extends info \<notin> ?Q" using least by simp
    moreover from nd info False have "map_of operClasses (Extends info) \<noteq> None"
      unfolding no_dangling_def by blast
    ultimately show ?thesis by simp
  qed
  from info have "z \<in> fst ` set operClasses"
    by (metis domI dom_map_of_conv_image_fst)
  with enum have "z \<in> set names" by blast
  from OperatorClasses_pass_ready [OF pass this info ready] have new: "map_of ocs' z \<noteq> None" .
  from OperatorClasses_pass_appends [OF pass] obtain added where added: "ocs' = ocs @ added"
    by blast
  have "added \<noteq> []"
  proof
    assume "added = []"
    with added new z show False by simp
  qed
  with added show ?thesis by simp
qed

text \<open>
  So the loop, started with \<^verbatim>\<open>lenOfLastOcs\<close> below \<^verbatim>\<open>len(ocs)\<close>, never meets the
  looping-dependency error: it panics on an untitled class, or returns every class
  resolved.
\<close>

lemma OperatorClasses_loop_resolves:
  "no_dangling operClasses \<Longrightarrow> no_cycles operClasses
   \<Longrightarrow> \<forall>i. fst ` set operClasses \<subseteq> set (sched i)
   \<Longrightarrow> assembled ToLower operClasses ocs \<Longrightarrow> lenOfLastOcs < int (length ocs)
   \<Longrightarrow> (OperatorClasses_loop ToLower operClasses sched i lenOfLastOcs ocs = Inl Panic
          \<and> (\<exists>name info. map_of operClasses name = Some info \<and> untitled info))
       \<or> (\<exists>ocs'. OperatorClasses_loop ToLower operClasses sched i lenOfLastOcs ocs = Inr ocs'
             \<and> assembled ToLower operClasses ocs'
             \<and> (\<forall>name. map_of operClasses name \<noteq> None \<longrightarrow> map_of ocs' name \<noteq> None))"
proof (induction ToLower operClasses sched i lenOfLastOcs ocs rule: OperatorClasses_loop.induct)
  case (1 ToLower operClasses sched i lenOfLastOcs ocs)
  from "1.prems"(5) have ne: "lenOfLastOcs \<noteq> int (length ocs)" by simp
  from "1.prems"(3) have enum: "fst ` set operClasses \<subseteq> set (sched i)" by simp
  show ?case
  proof (cases "OperatorClasses_pass ToLower operClasses (sched i) (ocs, False)")
    case (Inl e)
    from OperatorClasses_pass_failure [OF "1.prems"(1) Inl] have
      e: "e = Panic" "\<exists>name info. map_of operClasses name = Some info \<and> untitled info"
      by simp_all
    from ne Inl e(1) have
      "OperatorClasses_loop ToLower operClasses sched i lenOfLastOcs ocs = Inl Panic"
      by (subst OperatorClasses_loop.simps) simp
    with e(2) show ?thesis by blast
  next
    case (Inr st)
    obtain ocs1 anyMissing where st: "st = (ocs1, anyMissing)" by (cases st)
    note pass = Inr [unfolded st]
    from OperatorClasses_pass_assembled [OF "1.prems"(4) pass]
    have inv1: "assembled ToLower operClasses ocs1" .
    show ?thesis
    proof (cases anyMissing)
      case False
      with pass have pass': "OperatorClasses_pass ToLower operClasses (sched i) (ocs, False)
          = Inr (ocs1, False)" by simp
      have "\<forall>name. map_of operClasses name \<noteq> None \<longrightarrow> map_of ocs1 name \<noteq> None"
      proof (intro allI impI)
        fix name
        assume k: "map_of operClasses name \<noteq> None"
        then have "name \<in> fst ` set operClasses"
          by (metis domIff dom_map_of_conv_image_fst)
        with enum have "name \<in> set (sched i)" by blast
        from OperatorClasses_pass_complete [OF pass' this k]
        show "map_of ocs1 name \<noteq> None" .
      qed
      moreover from ne pass False have
        "OperatorClasses_loop ToLower operClasses sched i lenOfLastOcs ocs = Inr ocs1"
        by (subst OperatorClasses_loop.simps) simp
      ultimately show ?thesis using inv1 by blast
    next
      case True
      have grow: "int (length ocs) < int (length ocs1)"
      proof (cases "\<forall>name. map_of operClasses name \<noteq> None \<longrightarrow> map_of ocs name \<noteq> None")
        case True
        from OperatorClasses_pass_all_assembled [OF True, of ToLower "sched i" False] pass
          \<open>anyMissing\<close> show ?thesis by simp
      next
        case False
        then obtain k where "map_of operClasses k \<noteq> None" "map_of ocs k = None" by blast
        from OperatorClasses_pass_progress [OF "1.prems"(1,2) enum pass this]
        show ?thesis by simp
      qed
      from "1.IH" [OF ne pass refl _ "1.prems"(1-3) inv1 grow] True
      have "(OperatorClasses_loop ToLower operClasses sched (Suc i) (int (length ocs)) ocs1 = Inl Panic
          \<and> (\<exists>name info. map_of operClasses name = Some info \<and> untitled info))
       \<or> (\<exists>ocs'. OperatorClasses_loop ToLower operClasses sched (Suc i) (int (length ocs)) ocs1 = Inr ocs'
             \<and> assembled ToLower operClasses ocs'
             \<and> (\<forall>name. map_of operClasses name \<noteq> None \<longrightarrow> map_of ocs' name \<noteq> None))"
        by simp
      moreover from ne pass True have
        "OperatorClasses_loop ToLower operClasses sched i lenOfLastOcs ocs
           = OperatorClasses_loop ToLower operClasses sched (Suc i) (int (length ocs)) ocs1"
        by (subst OperatorClasses_loop.simps) simp
      ultimately show ?thesis by simp
    qed
  qed
qed

lemma assembled_complete:
  assumes "assembled ToLower operClasses ocs"
    and "\<forall>name. map_of operClasses name \<noteq> None \<longrightarrow> map_of ocs name \<noteq> None"
  shows "map_of ocs = resolved ToLower operClasses"
    and "\<forall>name info. map_of operClasses name = Some info \<longrightarrow> \<not> untitled info"
proof -
  show "map_of ocs = resolved ToLower operClasses"
  proof
    fix name
    show "map_of ocs name = resolved ToLower operClasses name"
    proof (cases "map_of ocs name")
      case None
      with assms(2) have "map_of operClasses name = None" by auto
      with None show ?thesis by (simp add: resolved_def)
    next
      case (Some c)
      with assms(1) show ?thesis by (simp add: assembled_def)
    qed
  qed
  show "\<forall>name info. map_of operClasses name = Some info \<longrightarrow> \<not> untitled info"
  proof (intro allI impI)
    fix name info
    assume i: "map_of operClasses name = Some info"
    with assms(2) obtain c where "map_of ocs name = Some c" by auto
    with assms(1) have "\<exists>info. map_of operClasses name = Some info \<and> \<not> untitled info"
      unfolding assembled_def by blast
    with i show "\<not> untitled info" by simp
  qed
qed

text \<open>
  What \<^verbatim>\<open>OperatorClasses\<close> returns on a set of classes without cycles and dangling
  references, whatever the orders of enumeration: the panic when a class is untitled, and
  otherwise the map that gives each class its title, its whois line and the union of its
  own capabilities and those of all its ancestors.
\<close>

lemma OperatorClasses_resolved:
  assumes nd: "no_dangling operClasses" and nc: "no_cycles operClasses"
    and enum: "\<forall>i. fst ` set operClasses \<subseteq> set (sched i)"
  shows "OperatorClasses ToLower operClasses sched =
           (if \<exists>name info. map_of operClasses name = Some info \<and> untitled info
            then Inl Panic
            else Inr (resolved ToLower operClasses))"
proof -
  let ?loop = "OperatorClasses_loop ToLower operClasses sched 0 (- 1) []"
  from OperatorClasses_loop_resolves [OF nd nc enum assembled_Nil, of "- 1" ToLower 0]
  consider (panic) "?loop = Inl Panic"
      "\<exists>name info. map_of operClasses name = Some info \<and> untitled info"
    | (all) ocs' where "?loop = Inr ocs'" "assembled ToLower operClasses ocs'"
        "\<forall>name. map_of operClasses name \<noteq> None \<longrightarrow> map_of ocs' name \<noteq> None"
    by auto
  then show ?thesis
  proof cases
    case panic
    then show ?thesis by (simp add: OperatorClasses_def)
  next
    case all
    from assembled_complete [OF all(2,3)] all(1) show ?thesis
      by (simp add: OperatorClasses_def)
  qed
qed

section \<open>Order of enumeration, cycles\<close>

text \<open>
  The extends relation and the absence of dangling references, computed along the list of
  the classes.
\<close>

lemma extends_rel_Nil: "extends_rel [] = {}"
  by (simp add: extends_rel_def)

lemma extends_rel_Cons:
  "name \<notin> fst ` set rest
   \<Longrightarrow> extends_rel ((name, info) # rest) =
         (if Extends info = [] then {} else {(name, Extends info)}) \<union> extends_rel rest"
proof -
  assume fresh: "name \<notin> fst ` set rest"
  then have none: "map_of rest name = None" by (simp add: map_of_eq_None_iff)
  show ?thesis
  proof (intro set_eqI iffI)
    fix p
    assume "p \<in> extends_rel ((name, info) # rest)"
    then obtain k i where p: "p = (k, Extends i)" "map_of ((name, info) # rest) k = Some i"
      "Extends i \<noteq> []"
      unfolding extends_rel_def by blast
    show "p \<in> (if Extends info = [] then {} else {(name, Extends info)}) \<union> extends_rel rest"
    proof (cases "k = name")
      case True
      with p show ?thesis by simp
    next
      case False
      with p have "map_of rest k = Some i" by simp
      with p(1,3) have "p \<in> extends_rel rest" unfolding extends_rel_def by blast
      then show ?thesis by simp
    qed
  next
    fix p
    assume "p \<in> (if Extends info = [] then {} else {(name, Extends info)}) \<union> extends_rel rest"
    then consider "Extends info \<noteq> []" "p = (name, Extends info)" | "p \<in> extends_rel rest"
      by (auto split: if_splits)
    then show "p \<in> extends_rel ((name, info) # rest)"
    proof cases
      case 1
      then show ?thesis unfolding extends_rel_def by simp
    next
      case 2
      then obtain k i where p: "p = (k, Extends i)" "map_of rest k = Some i" "Extends i \<noteq> []"
        unfolding extends_rel_def by blast
      with none have "k \<noteq> name" by auto
      with p show ?thesis unfolding extends_rel_def by auto
    qed
  qed
qed

lemma no_dangling_Cons:
  assumes "\<forall>(name, info) \<in> set operClasses.
             Extends info = [] \<or> Extends info \<in> fst ` set operClasses"
  shows "no_dangling operClasses"
  unfolding no_dangling_def
proof (intro allI impI)
  fix name info
  assume a: "map_of operClasses name = Some info \<and> Extends info \<noteq> []"
  then have "(name, info) \<in> set operClasses" by (simp add: map_of_SomeD)
  with assms a have "Extends info \<in> fst ` set operClasses" by auto
  then show "map_of operClasses (Extends info) \<noteq> None"
    by (simp add: map_of_eq_None_iff)
qed

text \<open>
  Claim C7. On a set of classes without cycles and dangling references, two runs of
  \<^verbatim>\<open>OperatorClasses\<close> that enumerate the map in different orders, pass after pass, end
  the same way: with the same map, or both with the panic on an untitled class.
\<close>

theorem C7_order_independent:
  "no_dangling operClasses \<and> no_cycles operClasses
     \<and> (\<forall>i. enumerates operClasses (sched i)) \<and> (\<forall>i. enumerates operClasses (sched' i))
   \<longrightarrow> OperatorClasses ToLower operClasses sched = OperatorClasses ToLower operClasses sched'"
proof
  assume h: "no_dangling operClasses \<and> no_cycles operClasses
     \<and> (\<forall>i. enumerates operClasses (sched i)) \<and> (\<forall>i. enumerates operClasses (sched' i))"
  then have e: "\<forall>i. fst ` set operClasses \<subseteq> set (sched i)"
    "\<forall>i. fst ` set operClasses \<subseteq> set (sched' i)"
    by (simp_all add: enumerates_def)
  from h have nd: "no_dangling operClasses" and nc: "no_cycles operClasses" by simp_all
  show "OperatorClasses ToLower operClasses sched = OperatorClasses ToLower operClasses sched'"
    unfolding OperatorClasses_resolved [OF nd nc e(1)] OperatorClasses_resolved [OF nd nc e(2)]
    by (rule refl)
qed

theorem C7_order_independent_witness:
  "OperatorClasses ascii_ToLower
     [(''server-admin'', operClass_server_admin_config), (''local-oper'', operClass_local_oper)]
     (\<lambda>i. [''server-admin'', ''local-oper''])
   = OperatorClasses ascii_ToLower
     [(''server-admin'', operClass_server_admin_config), (''local-oper'', operClass_local_oper)]
     (\<lambda>i. [''local-oper'', ''server-admin''])
   \<and> OperatorClasses ascii_ToLower
     [(''server-admin'', operClass_server_admin_config), (''local-oper'', operClass_local_oper)]
     (\<lambda>i. [''server-admin'', ''local-oper''])
   = Inr (map_of
       [(''local-oper'',
         \<lparr>OperClass.Title = ''Local Operator'', WhoisLine = ''is a Local Operator'',
          Capabilities = {''oper:local_kill'', ''oper:local_ban''}\<rparr>),
        (''server-admin'',
         \<lparr>OperClass.Title = ''Server Admin'', WhoisLine = ''is the server admin'',
          Capabilities = {''oper:local_kill'', ''oper:local_ban'', ''oper:rehash''}\<rparr>)])"
proof -
  let ?oc = "[(''server-admin'', operClass_server_admin_config),
              (''local-oper'', operClass_local_oper)]"
  have rel: "extends_rel ?oc = {(''server-admin'', ''local-oper'')}"
    by (simp add: extends_rel_Cons extends_rel_Nil operClass_server_admin_config_def
          operClass_local_oper_def)
  have nd: "no_dangling ?oc"
    by (rule no_dangling_Cons)
      (simp add: operClass_server_admin_config_def operClass_local_oper_def)
  have nc: "no_cycles ?oc"
    unfolding no_cycles_def rel by (simp add: acyclic_insert wf_acyclic)
  have en: "\<forall>i. enumerates ?oc ((\<lambda>i. [''server-admin'', ''local-oper'']) i)"
    "\<forall>i. enumerates ?oc ((\<lambda>i. [''local-oper'', ''server-admin'']) i)"
    by (auto simp: enumerates_def)
  from nd nc en have h: "no_dangling ?oc \<and> no_cycles ?oc
     \<and> (\<forall>i. enumerates ?oc ((\<lambda>i. [''server-admin'', ''local-oper'']) i))
     \<and> (\<forall>i. enumerates ?oc ((\<lambda>i. [''local-oper'', ''server-admin'']) i))"
    by (intro conjI)
  have run: "OperatorClasses ascii_ToLower ?oc (\<lambda>i. [''server-admin'', ''local-oper''])
   = Inr (map_of
       [(''local-oper'',
         \<lparr>OperClass.Title = ''Local Operator'', WhoisLine = ''is a Local Operator'',
          Capabilities = {''oper:local_kill'', ''oper:local_ban''}\<rparr>),
        (''server-admin'',
         \<lparr>OperClass.Title = ''Server Admin'', WhoisLine = ''is the server admin'',
          Capabilities = {''oper:local_kill'', ''oper:local_ban'', ''oper:rehash''}\<rparr>)])"
    by (simp add: eval_OperatorClasses operClass_local_oper_def
          operClass_server_admin_config_def) auto
  from C7_order_independent [of ?oc "\<lambda>i. [''server-admin'', ''local-oper'']"
      "\<lambda>i. [''local-oper'', ''server-admin'']" ascii_ToLower, THEN mp, OF h] run
  show ?thesis by (intro conjI)
qed

text \<open>
  Two classes that extend each other are never assembled, and every pass that visits one
  of them and returns has set \<^verbatim>\<open>anyMissing\<close>; the loop then ends with the
  looping-dependency error, unless a pass fails.
\<close>

lemma OperatorClasses_pass_cycle:
  assumes ab: "map_of operClasses a = Some ia" "map_of operClasses b = Some ib"
      "Extends ia = b" "Extends ib = a" "a \<noteq> []" "b \<noteq> []"
  shows "map_of ocs a = None \<Longrightarrow> map_of ocs b = None
   \<Longrightarrow> OperatorClasses_pass ToLower operClasses names (ocs, anyMissing) = Inr (ocs', anyMissing')
   \<Longrightarrow> map_of ocs' a = None \<and> map_of ocs' b = None \<and> (a \<in> set names \<longrightarrow> anyMissing')"
proof (induction names arbitrary: ocs anyMissing)
  case Nil
  then show ?case by simp
next
  case (Cons n names)
  show ?case
  proof (cases rule: OperatorClasses_pass_Cons_cases [of operClasses n ToLower names ocs anyMissing])
    case skip
    with ab(1) have ne: "n \<noteq> a" by auto
    from Cons.prems(3) skip(2) have
      "OperatorClasses_pass ToLower operClasses names (ocs, anyMissing) = Inr (ocs', anyMissing')"
      by simp
    from Cons.IH [OF Cons.prems(1,2) this] ne show ?thesis by simp
  next
    case (exists i)
    with Cons.prems(1) have ne: "n \<noteq> a" by auto
    from Cons.prems(3) exists(3) have
      "OperatorClasses_pass ToLower operClasses names (ocs, anyMissing) = Inr (ocs', anyMissing')"
      by simp
    from Cons.IH [OF Cons.prems(1,2) this] ne show ?thesis by simp
  next
    case (missing i)
    with Cons.prems(3) show ?thesis by simp
  next
    case (deferred i)
    from Cons.prems(3) deferred(6) have
      r: "OperatorClasses_pass ToLower operClasses names (ocs, True) = Inr (ocs', anyMissing')"
      by simp
    from OperatorClasses_pass_appends [OF r] have "anyMissing'" by blast
    with Cons.IH [OF Cons.prems(1,2) r] show ?thesis by simp
  next
    case (fail i e)
    with Cons.prems(3) show ?thesis by simp
  next
    case (new i c)
    have na: "n \<noteq> a"
    proof
      assume "n = a"
      with new(1) ab(1) have "i = ia" by simp
      with new(3) ab(3,6) Cons.prems(2) show False by simp
    qed
    have nb: "n \<noteq> b"
    proof
      assume "n = b"
      with new(1) ab(2) have "i = ib" by simp
      with new(3) ab(4,5) Cons.prems(1) show False by simp
    qed
    from na Cons.prems(1) have a: "map_of (ocs @ [(n, c)]) a = None"
      by (simp add: map_of_eq_None_iff)
    from nb Cons.prems(2) have b: "map_of (ocs @ [(n, c)]) b = None"
      by (simp add: map_of_eq_None_iff)
    from Cons.prems(3) new(5) have
      r: "OperatorClasses_pass ToLower operClasses names (ocs @ [(n, c)], anyMissing)
            = Inr (ocs', anyMissing')"
      by simp
    from Cons.IH [OF a b r] na show ?thesis by simp
  qed
qed

lemma OperatorClasses_loop_cycle:
  "map_of operClasses a = Some ia \<Longrightarrow> map_of operClasses b = Some ib
   \<Longrightarrow> Extends ia = b \<Longrightarrow> Extends ib = a \<Longrightarrow> a \<noteq> [] \<Longrightarrow> b \<noteq> []
   \<Longrightarrow> no_dangling operClasses
   \<Longrightarrow> \<forall>name info. map_of operClasses name = Some info \<longrightarrow> \<not> untitled info
   \<Longrightarrow> \<forall>i. a \<in> set (sched i)
   \<Longrightarrow> map_of ocs a = None \<Longrightarrow> map_of ocs b = None
   \<Longrightarrow> OperatorClasses_loop ToLower operClasses sched i lenOfLastOcs ocs
         = Inl (Error errLoopingDependency)"
proof (induction ToLower operClasses sched i lenOfLastOcs ocs rule: OperatorClasses_loop.induct)
  case (1 ToLower operClasses sched i lenOfLastOcs ocs)
  show ?case
  proof (cases "lenOfLastOcs = int (length ocs)")
    case True
    then show ?thesis by (subst OperatorClasses_loop.simps) simp
  next
    case False
    show ?thesis
    proof (cases "OperatorClasses_pass ToLower operClasses (sched i) (ocs, False)")
      case (Inl e)
      from OperatorClasses_pass_failure [OF "1.prems"(7) Inl] "1.prems"(8) show ?thesis
        by blast
    next
      case (Inr st)
      obtain ocs1 anyMissing where st: "st = (ocs1, anyMissing)" by (cases st)
      note pass = Inr [unfolded st]
      from OperatorClasses_pass_cycle [OF "1.prems"(1-6,10,11) pass] "1.prems"(9)
      have c: "map_of ocs1 a = None" "map_of ocs1 b = None" "anyMissing" by simp_all
      from "1.IH" [OF False pass refl _ "1.prems"(1-9) c(1,2)] c(3)
      have "OperatorClasses_loop ToLower operClasses sched (Suc i) (int (length ocs)) ocs1
              = Inl (Error errLoopingDependency)"
        by simp
      with False pass c(3) show ?thesis by (subst OperatorClasses_loop.simps) simp
    qed
  qed
qed

lemma OperatorClasses_loop_no_progress:
  assumes ne: "lenOfLastOcs \<noteq> int (length ocs)"
    and pass: "OperatorClasses_pass ToLower operClasses (sched i) (ocs, False)
                 = Inr (ocs', anyMissing)"
    and same: "length ocs' = length ocs"
    and todo: "name \<in> set (sched i)" "map_of operClasses name \<noteq> None" "map_of ocs' name = None"
  shows "OperatorClasses_loop ToLower operClasses sched i lenOfLastOcs ocs
           = Inl (Error errLoopingDependency)"
proof -
  have am: anyMissing
  proof (rule ccontr)
    assume "\<not> anyMissing"
    with pass have "OperatorClasses_pass ToLower operClasses (sched i) (ocs, False)
                 = Inr (ocs', False)" by simp
    from OperatorClasses_pass_complete [OF this todo(1,2)] todo(3) show False by simp
  qed
  have next_pass: "OperatorClasses_loop ToLower operClasses sched (Suc i) (int (length ocs)) ocs'
      = Inl (Error errLoopingDependency)"
    using same by (subst OperatorClasses_loop.simps) simp
  from ne pass am have
    "OperatorClasses_loop ToLower operClasses sched i lenOfLastOcs ocs
       = OperatorClasses_loop ToLower operClasses sched (Suc i) (int (length ocs)) ocs'"
    by (subst OperatorClasses_loop.simps) simp
  with next_pass show ?thesis by simp
qed

text \<open>
  A dangling reference. A pass that no class without title and whois line stops reaches
  the first class it enumerates whose \<^verbatim>\<open>extends\<close> names no class of the document, and
  returns the missing-base error there: such a class is never assembled, and nothing
  else fails. The first pass of \<^verbatim>\<open>OperatorClasses\<close> is such a pass.
\<close>

lemma OperatorClasses_pass_dangling:
  assumes titled: "\<forall>name info. map_of operClasses name = Some info \<longrightarrow> \<not> untitled info"
    and d: "map_of operClasses d = Some di" "Extends di \<noteq> []"
           "map_of operClasses (Extends di) = None"
  shows "d \<in> set names
   \<Longrightarrow> \<forall>n. map_of ocs n \<noteq> None \<longrightarrow> map_of operClasses n \<noteq> None
   \<Longrightarrow> \<forall>n info. map_of operClasses n = Some info \<and> Extends info \<noteq> []
                 \<and> map_of operClasses (Extends info) = None \<longrightarrow> map_of ocs n = None
   \<Longrightarrow> \<exists>name info. name \<in> set names \<and> map_of operClasses name = Some info
         \<and> Extends info \<noteq> [] \<and> map_of operClasses (Extends info) = None
         \<and> OperatorClasses_pass ToLower operClasses names (ocs, anyMissing)
             = Inl (Error (errMissingBase name (Extends info)))"
proof (induction names arbitrary: ocs anyMissing)
  case Nil
  then show ?case by simp
next
  case (Cons n names)
  show ?case
  proof (cases rule: OperatorClasses_pass_Cons_cases [of operClasses n ToLower names ocs anyMissing])
    case skip
    with d(1) have "n \<noteq> d" by auto
    with Cons.prems(1) have "d \<in> set names" by simp
    from Cons.IH [OF this Cons.prems(2,3), of anyMissing] skip(2) show ?thesis by auto
  next
    case (exists i)
    from Cons.prems(3) d have "map_of ocs d = None" by blast
    with exists(2) have "n \<noteq> d" by auto
    with Cons.prems(1) have "d \<in> set names" by simp
    from Cons.IH [OF this Cons.prems(2,3), of anyMissing] exists(3) show ?thesis by auto
  next
    case (missing i)
    then show ?thesis by auto
  next
    case (deferred i)
    with d have "n \<noteq> d" by auto
    with Cons.prems(1) have "d \<in> set names" by simp
    from Cons.IH [OF this Cons.prems(2,3), of True] deferred(6) show ?thesis by auto
  next
    case (fail i e)
    from new_OperClass_failure [OF fail(4)] titled fail(1) show ?thesis by blast
  next
    case (new i c)
    from new(3) Cons.prems(2) have base: "Extends i = [] \<or> map_of operClasses (Extends i) \<noteq> None"
      by blast
    with new(1) d have ne: "n \<noteq> d" by auto
    with Cons.prems(1) have din: "d \<in> set names" by simp
    have keys: "\<forall>m. map_of (ocs @ [(n, c)]) m \<noteq> None \<longrightarrow> map_of operClasses m \<noteq> None"
      using Cons.prems(2) new(1) by (auto simp: map_of_append split: if_splits)
    have dang: "\<forall>m info. map_of operClasses m = Some info \<and> Extends info \<noteq> []
                 \<and> map_of operClasses (Extends info) = None
               \<longrightarrow> map_of (ocs @ [(n, c)]) m = None"
    proof (intro allI impI)
      fix m info
      assume m: "map_of operClasses m = Some info \<and> Extends info \<noteq> []
                 \<and> map_of operClasses (Extends info) = None"
      with Cons.prems(3) have "map_of ocs m = None" by blast
      moreover from m base new(1) have "m \<noteq> n" by auto
      ultimately show "map_of (ocs @ [(n, c)]) m = None"
        by (simp add: map_of_eq_None_iff)
    qed
    from Cons.IH [OF din keys dang, of anyMissing] new(5) show ?thesis by auto
  qed
qed

lemma OperatorClasses_dangling:
  assumes titled: "\<forall>name info. map_of operClasses name = Some info \<longrightarrow> \<not> untitled info"
    and d: "map_of operClasses d = Some di" "Extends di \<noteq> []"
           "map_of operClasses (Extends di) = None"
    and en: "d \<in> set (sched 0)"
  shows "\<exists>name info. name \<in> set (sched 0) \<and> map_of operClasses name = Some info
         \<and> Extends info \<noteq> [] \<and> map_of operClasses (Extends info) = None
         \<and> OperatorClasses ToLower operClasses sched
             = Inl (Error (errMissingBase name (Extends info)))"
proof -
  from OperatorClasses_pass_dangling [OF titled d en, of "[]" ToLower False]
  obtain name info where
    n: "name \<in> set (sched 0)" "map_of operClasses name = Some info"
       "Extends info \<noteq> []" "map_of operClasses (Extends info) = None"
       "OperatorClasses_pass ToLower operClasses (sched 0) ([], False)
             = Inl (Error (errMissingBase name (Extends info)))"
    by auto
  from n(5) have "OperatorClasses ToLower operClasses sched
             = Inl (Error (errMissingBase name (Extends info)))"
    unfolding OperatorClasses_def by (subst OperatorClasses_loop.simps) simp
  with n(1-4) show ?thesis by blast
qed

text \<open>
  Claim C3, amended. The claim says that every set with two classes extending each other
  gives the looping-dependency error. The missing-base check comes first: with a
  dangling reference beside the cycle the first pass returns the missing-base error.
  What holds, when every class has a title or a whois line: a set with two classes that
  extend each other and no dangling reference gives the looping-dependency error,
  whatever the orders of enumeration; a set with a dangling reference, with a cycle
  beside it or without, gives the missing-base error of a class whose \<^verbatim>\<open>extends\<close> names no
  class. And whenever a pass returns with \<^verbatim>\<open>ocs\<close> no longer than before while a class
  it visited is not assembled, the loop ends with the looping-dependency error; the loop
  is a total function, so it always ends.
\<close>

theorem C3_looping_dependency:
  "(a \<noteq> [] \<and> b \<noteq> [] \<and> map_of operClasses a = Some ia \<and> map_of operClasses b = Some ib
      \<and> Extends ia = b \<and> Extends ib = a
      \<and> no_dangling operClasses
      \<and> (\<forall>name info. map_of operClasses name = Some info \<longrightarrow> \<not> untitled info)
      \<and> (\<forall>i. enumerates operClasses (sched i))
    \<longrightarrow> OperatorClasses ToLower operClasses sched = Inl (Error errLoopingDependency))
   \<and> (map_of operClasses d = Some di \<and> Extends di \<noteq> []
        \<and> map_of operClasses (Extends di) = None
        \<and> (\<forall>name info. map_of operClasses name = Some info \<longrightarrow> \<not> untitled info)
        \<and> enumerates operClasses (sched 0)
      \<longrightarrow> (\<exists>name info. map_of operClasses name = Some info \<and> Extends info \<noteq> []
             \<and> map_of operClasses (Extends info) = None
             \<and> OperatorClasses ToLower operClasses sched
                 = Inl (Error (errMissingBase name (Extends info)))))
   \<and> (lenOfLastOcs \<noteq> int (length ocs)
        \<and> OperatorClasses_pass ToLower operClasses (sched i) (ocs, False) = Inr (ocs', anyMissing)
        \<and> length ocs' = length ocs
        \<and> name \<in> set (sched i) \<and> map_of operClasses name \<noteq> None \<and> map_of ocs' name = None
      \<longrightarrow> OperatorClasses_loop ToLower operClasses sched i lenOfLastOcs ocs
            = Inl (Error errLoopingDependency))"
proof (intro conjI impI)
  assume h: "a \<noteq> [] \<and> b \<noteq> [] \<and> map_of operClasses a = Some ia \<and> map_of operClasses b = Some ib
      \<and> Extends ia = b \<and> Extends ib = a
      \<and> no_dangling operClasses
      \<and> (\<forall>name info. map_of operClasses name = Some info \<longrightarrow> \<not> untitled info)
      \<and> (\<forall>i. enumerates operClasses (sched i))"
  then have "a \<in> fst ` set operClasses"
    by (metis domI dom_map_of_conv_image_fst)
  with h have en: "\<forall>i. a \<in> set (sched i)" by (simp add: enumerates_def)
  have "OperatorClasses_loop ToLower operClasses sched 0 (- 1) [] = Inl (Error errLoopingDependency)"
    by (rule OperatorClasses_loop_cycle [of operClasses a ia b ib]) (use h en in simp_all)
  then show "OperatorClasses ToLower operClasses sched = Inl (Error errLoopingDependency)"
    by (simp add: OperatorClasses_def)
next
  assume h: "map_of operClasses d = Some di \<and> Extends di \<noteq> []
        \<and> map_of operClasses (Extends di) = None
        \<and> (\<forall>name info. map_of operClasses name = Some info \<longrightarrow> \<not> untitled info)
        \<and> enumerates operClasses (sched 0)"
  then have "d \<in> fst ` set operClasses"
    by (metis domI dom_map_of_conv_image_fst)
  with h have en: "d \<in> set (sched 0)" by (simp add: enumerates_def)
  from h have titled: "\<forall>name info. map_of operClasses name = Some info \<longrightarrow> \<not> untitled info"
    and d: "map_of operClasses d = Some di" "Extends di \<noteq> []"
           "map_of operClasses (Extends di) = None"
    by simp_all
  from OperatorClasses_dangling [of operClasses d di sched ToLower, OF titled d en]
  show "\<exists>name info. map_of operClasses name = Some info \<and> Extends info \<noteq> []
             \<and> map_of operClasses (Extends info) = None
             \<and> OperatorClasses ToLower operClasses sched
                 = Inl (Error (errMissingBase name (Extends info)))"
    by blast
next
  assume "lenOfLastOcs \<noteq> int (length ocs)
        \<and> OperatorClasses_pass ToLower operClasses (sched i) (ocs, False) = Inr (ocs', anyMissing)
        \<and> length ocs' = length ocs
        \<and> name \<in> set (sched i) \<and> map_of operClasses name \<noteq> None \<and> map_of ocs' name = None"
  then show "OperatorClasses_loop ToLower operClasses sched i lenOfLastOcs ocs
            = Inl (Error errLoopingDependency)"
    using OperatorClasses_loop_no_progress [of lenOfLastOcs ocs ToLower operClasses sched i ocs'
        anyMissing name]
    by blast
qed

theorem C3_looping_dependency_counterexample:
  "OperatorClasses ascii_ToLower
     [(''alpha'', operClass_alpha), (''beta'', operClass_beta), (''helper'', operClass_helper)]
     (\<lambda>i. [''alpha'', ''beta'', ''helper''])
   = Inl (Error ''Operclass [helper] extends [missing], which doesn't exist'')"
  by (simp add: eval_OperatorClasses operClass_alpha_def operClass_beta_def operClass_helper_def)

theorem C3_looping_dependency_witness:
  "OperatorClasses ascii_ToLower
     [(''admin'', operClass_admin), (''alpha'', operClass_alpha), (''beta'', operClass_beta)]
     (\<lambda>i. [''beta'', ''admin'', ''alpha''])
   = Inl (Error errLoopingDependency)
   \<and> OperatorClasses ascii_ToLower
     [(''alpha'', operClass_alpha), (''helper'', operClass_helper), (''beta'', operClass_beta)]
     (\<lambda>i. [''beta'', ''alpha'', ''helper''])
   = Inl (Error (errMissingBase ''helper'' ''missing''))
   \<and> OperatorClasses_loop ascii_ToLower
     [(''admin'', operClass_admin), (''alpha'', operClass_alpha), (''beta'', operClass_beta)]
     (\<lambda>i. [''beta'', ''admin'', ''alpha'']) 1 0
     [(''admin'', \<lparr>OperClass.Title = ''Admin'', WhoisLine = ''is a Admin'',
                   Capabilities = {''oper:rehash'', ''oper:die''}\<rparr>)]
   = Inl (Error errLoopingDependency)"
proof -
  let ?oc = "[(''admin'', operClass_admin), (''alpha'', operClass_alpha),
              (''beta'', operClass_beta)]"
  let ?sched = "\<lambda>i::nat. [''beta'', ''admin'', ''alpha'']"
  let ?ocs = "[(''admin'', \<lparr>OperClass.Title = ''Admin'', WhoisLine = ''is a Admin'',
                   Capabilities = {''oper:rehash'', ''oper:die''}\<rparr>)]"
  let ?od = "[(''alpha'', operClass_alpha), (''helper'', operClass_helper),
              (''beta'', operClass_beta)]"
  let ?schedd = "\<lambda>i::nat. [''beta'', ''alpha'', ''helper'']"
  have nd: "no_dangling ?oc"
    by (rule no_dangling_Cons)
      (simp add: operClass_admin_def operClass_alpha_def operClass_beta_def)
  have titled: "\<forall>name info. map_of ?oc name = Some info \<longrightarrow> \<not> untitled info"
    by (simp add: untitled_def operClass_admin_def operClass_alpha_def operClass_beta_def)
  have en: "\<forall>i. enumerates ?oc (?sched i)"
    by (auto simp: enumerates_def)
  have ab: "''alpha'' \<noteq> [] \<and> ''beta'' \<noteq> [] \<and> map_of ?oc ''alpha'' = Some operClass_alpha
      \<and> map_of ?oc ''beta'' = Some operClass_beta
      \<and> Extends operClass_alpha = ''beta'' \<and> Extends operClass_beta = ''alpha''"
    by (simp add: operClass_alpha_def operClass_beta_def)
  from ab nd titled en have h: "''alpha'' \<noteq> [] \<and> ''beta'' \<noteq> []
      \<and> map_of ?oc ''alpha'' = Some operClass_alpha \<and> map_of ?oc ''beta'' = Some operClass_beta
      \<and> Extends operClass_alpha = ''beta'' \<and> Extends operClass_beta = ''alpha''
      \<and> no_dangling ?oc
      \<and> (\<forall>name info. map_of ?oc name = Some info \<longrightarrow> \<not> untitled info)
      \<and> (\<forall>i. enumerates ?oc (?sched i))"
    by (intro conjI) simp_all
  have titledd: "\<forall>name info. map_of ?od name = Some info \<longrightarrow> \<not> untitled info"
    by (simp add: untitled_def operClass_helper_def operClass_alpha_def operClass_beta_def)
  have en0: "enumerates ?od (?schedd 0)"
    by (auto simp: enumerates_def)
  have dd: "map_of ?od ''helper'' = Some operClass_helper \<and> Extends operClass_helper \<noteq> []
      \<and> map_of ?od (Extends operClass_helper) = None"
    by (simp add: operClass_helper_def)
  from dd titledd en0 have q: "map_of ?od ''helper'' = Some operClass_helper
      \<and> Extends operClass_helper \<noteq> [] \<and> map_of ?od (Extends operClass_helper) = None
      \<and> (\<forall>name info. map_of ?od name = Some info \<longrightarrow> \<not> untitled info)
      \<and> enumerates ?od (?schedd 0)"
    by (intro conjI) simp_all
  have p: "(0::int) \<noteq> int (length ?ocs)
        \<and> OperatorClasses_pass ascii_ToLower ?oc (?sched 1) (?ocs, False) = Inr (?ocs, True)
        \<and> length ?ocs = length ?ocs
        \<and> ''alpha'' \<in> set (?sched 1) \<and> map_of ?oc ''alpha'' \<noteq> None
        \<and> map_of ?ocs ''alpha'' = None"
    by (simp add: operClass_admin_def operClass_alpha_def operClass_beta_def)
  note A = C3_looping_dependency [of "''alpha''" "''beta''" ?oc operClass_alpha operClass_beta
      ?sched ascii_ToLower "''helper''" operClass_helper 0 ?ocs 1 ?ocs True "''alpha''",
      THEN conjunct1, THEN mp, OF h]
  note D = C3_looping_dependency [of "''alpha''" "''beta''" ?od operClass_alpha operClass_beta
      ?schedd ascii_ToLower "''helper''" operClass_helper 0 ?ocs 1 ?ocs True "''alpha''",
      THEN conjunct2, THEN conjunct1, THEN mp, OF q]
  note B = C3_looping_dependency [of "''alpha''" "''beta''" ?oc operClass_alpha operClass_beta
      ?sched ascii_ToLower "''helper''" operClass_helper 0 ?ocs 1 ?ocs True "''alpha''",
      THEN conjunct2, THEN conjunct2, THEN mp, OF p]
  from D obtain name info where
    n: "map_of ?od name = Some info" "Extends info \<noteq> []" "map_of ?od (Extends info) = None"
       "OperatorClasses ascii_ToLower ?od ?schedd
          = Inl (Error (errMissingBase name (Extends info)))"
    by blast
  from n(1,2,3) have "name = ''helper'' \<and> Extends info = ''missing''"
    by (auto simp: operClass_helper_def operClass_alpha_def operClass_beta_def split: if_splits)
  with n(4) have D': "OperatorClasses ascii_ToLower ?od ?schedd
          = Inl (Error (errMissingBase ''helper'' ''missing''))"
    by simp
  from A D' B show ?thesis by (intro conjI)
qed

section \<open>Properties of the operators\<close>

text \<open>
  The loop over a list of names is the loop over its first part, then over the rest; an
  entry of the map it returns was there at the start or is the binding of an enumerated
  name.
\<close>

lemma Operators_loop_append:
  "Operators_loop CasefoldName DecodePasswordHash TrimSpace oc opers (pre @ post) operators =
     (case Operators_loop CasefoldName DecodePasswordHash TrimSpace oc opers pre operators of
        Inl e \<Rightarrow> Inl e
      | Inr operators' \<Rightarrow>
          Operators_loop CasefoldName DecodePasswordHash TrimSpace oc opers post operators')"
  by (induction pre arbitrary: operators) (auto split: sum.splits option.splits)

lemma Operators_entry_WhoisLine:
  "Operators_entry CasefoldName DecodePasswordHash TrimSpace oc name opConf = Inr (k, oper)
   \<Longrightarrow> CasefoldName name = Inr k
       \<and> (\<exists>class. oc (OperConfig.Class opConf) = Some class \<and> Oper.Class oper = class
             \<and> Oper.WhoisLine oper =
                 (if OperConfig.WhoisLine opConf \<noteq> [] then OperConfig.WhoisLine opConf
                  else OperClass.WhoisLine class))"
  by (auto simp: Operators_entry_def split: sum.splits option.splits)

lemma Operators_loop_entries:
  "Operators_loop CasefoldName DecodePasswordHash TrimSpace oc opers names operators0 = Inr operators
   \<Longrightarrow> operators k = Some oper
   \<Longrightarrow> operators0 k = Some oper
       \<or> (\<exists>name opConf. name \<in> set names \<and> map_of opers name = Some opConf
             \<and> Operators_entry CasefoldName DecodePasswordHash TrimSpace oc name opConf
                 = Inr (k, oper))"
proof (induction names arbitrary: operators0)
  case Nil
  then show ?case by simp
next
  case (Cons n names)
  show ?case
  proof (cases "map_of opers n")
    case None
    with Cons.prems(1) have
      "Operators_loop CasefoldName DecodePasswordHash TrimSpace oc opers names operators0
         = Inr operators" by simp
    from Cons.IH [OF this Cons.prems(2)] show ?thesis by auto
  next
    case (Some opConf)
    with Cons.prems(1) obtain k' oper' where
      e: "Operators_entry CasefoldName DecodePasswordHash TrimSpace oc n opConf = Inr (k', oper')"
      and r: "Operators_loop CasefoldName DecodePasswordHash TrimSpace oc opers names
                (operators0(k' \<mapsto> oper')) = Inr operators"
      by (auto split: sum.splits)
    from Cons.IH [OF r Cons.prems(2)] show ?thesis
    proof
      assume "(operators0(k' \<mapsto> oper')) k = Some oper"
      then show ?thesis using e Some by (auto split: if_splits)
    next
      assume "\<exists>name opConf. name \<in> set names \<and> map_of opers name = Some opConf
             \<and> Operators_entry CasefoldName DecodePasswordHash TrimSpace oc name opConf
                 = Inr (k, oper)"
      then show ?thesis by auto
    qed
  qed
qed

text \<open>
  The other direction: when the loop returns a map, every enumerated entry was bound. The
  map has an operator under the casefolded name of the entry, and that operator is the
  binding of the entry unless another enumerated entry casefolds to the same name. A
  failure of the body of the loop at an entry is the result of \<^verbatim>\<open>Operators\<close> when the
  entries enumerated before it were bound.
\<close>

lemma Operators_loop_dom:
  "Operators_loop CasefoldName DecodePasswordHash TrimSpace oc opers names operators0 = Inr operators
   \<Longrightarrow> operators0 k \<noteq> None \<Longrightarrow> operators k \<noteq> None"
proof (induction names arbitrary: operators0)
  case Nil
  then show ?case by simp
next
  case (Cons n names)
  show ?case
  proof (cases "map_of opers n")
    case None
    with Cons.prems(1) have
      "Operators_loop CasefoldName DecodePasswordHash TrimSpace oc opers names operators0
         = Inr operators" by simp
    from Cons.IH [OF this Cons.prems(2)] show ?thesis .
  next
    case (Some opConf)
    with Cons.prems(1) obtain k' oper' where
      r: "Operators_loop CasefoldName DecodePasswordHash TrimSpace oc opers names
                (operators0(k' \<mapsto> oper')) = Inr operators"
      by (auto split: sum.splits)
    from Cons.prems(2) have "(operators0(k' \<mapsto> oper')) k \<noteq> None" by simp
    from Cons.IH [OF r this] show ?thesis .
  qed
qed

lemma Operators_loop_untouched:
  "Operators_loop CasefoldName DecodePasswordHash TrimSpace oc opers names operators0 = Inr operators
   \<Longrightarrow> \<forall>other\<in>set names. map_of opers other \<noteq> None \<longrightarrow> CasefoldName other \<noteq> Inr k
   \<Longrightarrow> operators k = operators0 k"
proof (induction names arbitrary: operators0)
  case Nil
  then show ?case by simp
next
  case (Cons n names)
  from Cons.prems(2) have rest:
    "\<forall>other\<in>set names. map_of opers other \<noteq> None \<longrightarrow> CasefoldName other \<noteq> Inr k"
    by simp
  show ?case
  proof (cases "map_of opers n")
    case None
    with Cons.prems(1) have
      "Operators_loop CasefoldName DecodePasswordHash TrimSpace oc opers names operators0
         = Inr operators" by simp
    from Cons.IH [OF this rest] show ?thesis .
  next
    case (Some opConf)
    with Cons.prems(1) obtain k' oper' where
      e: "Operators_entry CasefoldName DecodePasswordHash TrimSpace oc n opConf = Inr (k', oper')"
      and r: "Operators_loop CasefoldName DecodePasswordHash TrimSpace oc opers names
                (operators0(k' \<mapsto> oper')) = Inr operators"
      by (auto split: sum.splits)
    from Operators_entry_WhoisLine [OF e] have "CasefoldName n = Inr k'" by simp
    moreover from Cons.prems(2) Some have "CasefoldName n \<noteq> Inr k" by simp
    ultimately have "k' \<noteq> k" by auto
    with Cons.IH [OF r rest] show ?thesis by simp
  qed
qed

lemma Operators_loop_binds:
  "Operators_loop CasefoldName DecodePasswordHash TrimSpace oc opers names operators0 = Inr operators
   \<Longrightarrow> name \<in> set names \<Longrightarrow> map_of opers name = Some opConf
   \<Longrightarrow> \<exists>k oper. Operators_entry CasefoldName DecodePasswordHash TrimSpace oc name opConf
                   = Inr (k, oper)
         \<and> operators k \<noteq> None
         \<and> ((\<forall>other\<in>set names. map_of opers other \<noteq> None \<and> CasefoldName other = Inr k
                \<longrightarrow> other = name)
            \<longrightarrow> operators k = Some oper)"
proof (induction names arbitrary: operators0)
  case Nil
  then show ?case by simp
next
  case (Cons n names)
  show ?case
  proof (cases "map_of opers n")
    case None
    with Cons.prems(3) have "n \<noteq> name" by auto
    with Cons.prems(2) have mem: "name \<in> set names" by simp
    from None Cons.prems(1) have
      "Operators_loop CasefoldName DecodePasswordHash TrimSpace oc opers names operators0
         = Inr operators" by simp
    from Cons.IH [OF this mem Cons.prems(3)] show ?thesis by auto
  next
    case (Some c)
    with Cons.prems(1) obtain k' oper' where
      e: "Operators_entry CasefoldName DecodePasswordHash TrimSpace oc n c = Inr (k', oper')"
      and r: "Operators_loop CasefoldName DecodePasswordHash TrimSpace oc opers names
                (operators0(k' \<mapsto> oper')) = Inr operators"
      by (auto split: sum.splits)
    show ?thesis
    proof (cases "name \<in> set names")
      case True
      from Cons.IH [OF r True Cons.prems(3)] show ?thesis by auto
    next
      case False
      with Cons.prems(2) have eq: "n = name" by simp
      with Some Cons.prems(3) have c: "c = opConf" by simp
      from Operators_entry_WhoisLine [OF e] have cf: "CasefoldName n = Inr k'" by simp
      have dom: "operators k' \<noteq> None"
        by (rule Operators_loop_dom [OF r]) simp
      have "operators k' = Some oper'"
        if u: "\<forall>other\<in>set (n # names). map_of opers other \<noteq> None \<and> CasefoldName other = Inr k'
                \<longrightarrow> other = name"
      proof -
        from u False have
          "\<forall>other\<in>set names. map_of opers other \<noteq> None \<longrightarrow> CasefoldName other \<noteq> Inr k'"
          by auto
        from Operators_loop_untouched [OF r this] show ?thesis by simp
      qed
      with e eq c dom show ?thesis by auto
    qed
  qed
qed

lemma Operators_loop_reaches:
  "map_of opers name = Some opConf
   \<Longrightarrow> Operators CasefoldName DecodePasswordHash TrimSpace opers pre oc = Inr operators
   \<Longrightarrow> Operators_entry CasefoldName DecodePasswordHash TrimSpace oc name opConf = Inl e
   \<Longrightarrow> Operators CasefoldName DecodePasswordHash TrimSpace opers (pre @ name # post) oc = Inl e"
  by (simp add: Operators_def Operators_loop_append)

text \<open>
  Claim C8, amended. The claim says that \<^verbatim>\<open>Operators\<close> fails with the unknown-class
  error for every entry whose class is no key of the map of assembled classes. The code
  casefolds the name and decodes the password hash first, and the first entry that fails
  in the order of enumeration decides the result. What holds, for the body of the loop:
  an entry whose name does not casefold fails with the casefold error; one whose name
  casefolds and whose hash does not decode ends the process; one whose name casefolds,
  whose hash decodes and whose class is missing fails with the unknown-class error naming
  the casefolded name and the class; one whose name casefolds, whose hash decodes and
  whose class is present is bound under the casefolded name to an operator of that class
  whose whois line is the entry's own when that is non-empty, the class's otherwise. For
  \<^verbatim>\<open>Operators\<close>: it returns the failure of the body at an entry when the entries
  enumerated before it were bound; when it returns a map, every enumerated entry was
  bound with that whois line, the map has an operator under its casefolded name, and that
  operator is the binding of the entry when no other enumerated entry casefolds to the
  same name; and every operator of the map is the binding of an enumerated entry.
\<close>

theorem C8_operator_class_lookup:
  "((CasefoldName name = Inl errc
       \<longrightarrow> Operators_entry CasefoldName DecodePasswordHash TrimSpace oc name opConf
             = Inl (Error (errCasefold errc)))
    \<and> (CasefoldName name = Inr name' \<and> DecodePasswordHash (Password opConf) = Inl errd
       \<longrightarrow> Operators_entry CasefoldName DecodePasswordHash TrimSpace oc name opConf
             = Inl (Fatal (''decode password error: '' @ errd)))
    \<and> (CasefoldName name = Inr name' \<and> DecodePasswordHash (Password opConf) = Inr bytes
         \<and> oc (OperConfig.Class opConf) = None
       \<longrightarrow> Operators_entry CasefoldName DecodePasswordHash TrimSpace oc name opConf
             = Inl (Error (errUnknownClass name' (OperConfig.Class opConf))))
    \<and> (CasefoldName name = Inr name' \<and> DecodePasswordHash (Password opConf) = Inr bytes
         \<and> oc (OperConfig.Class opConf) = Some cls
       \<longrightarrow> (\<exists>oper. Operators_entry CasefoldName DecodePasswordHash TrimSpace oc name opConf
                      = Inr (name', oper)
             \<and> Oper.Class oper = cls
             \<and> Oper.WhoisLine oper =
                 (if OperConfig.WhoisLine opConf \<noteq> [] then OperConfig.WhoisLine opConf
                  else OperClass.WhoisLine cls))))
   \<and> (map_of opers name = Some opConf
        \<and> Operators CasefoldName DecodePasswordHash TrimSpace opers pre oc = Inr bound
        \<and> Operators_entry CasefoldName DecodePasswordHash TrimSpace oc name opConf = Inl e
      \<longrightarrow> Operators CasefoldName DecodePasswordHash TrimSpace opers (pre @ name # post) oc = Inl e)
   \<and> (Operators CasefoldName DecodePasswordHash TrimSpace opers names oc = Inr operators
        \<and> name \<in> set names \<and> map_of opers name = Some opConf
      \<longrightarrow> (\<exists>k oper class.
             Operators_entry CasefoldName DecodePasswordHash TrimSpace oc name opConf
               = Inr (k, oper)
             \<and> CasefoldName name = Inr k
             \<and> oc (OperConfig.Class opConf) = Some class \<and> Oper.Class oper = class
             \<and> Oper.WhoisLine oper =
                 (if OperConfig.WhoisLine opConf \<noteq> [] then OperConfig.WhoisLine opConf
                  else OperClass.WhoisLine class)
             \<and> operators k \<noteq> None
             \<and> ((\<forall>other\<in>set names. map_of opers other \<noteq> None \<and> CasefoldName other = Inr k
                    \<longrightarrow> other = name)
                \<longrightarrow> operators k = Some oper)))
   \<and> (Operators CasefoldName DecodePasswordHash TrimSpace opers names oc = Inr operators
        \<and> operators k = Some oper
      \<longrightarrow> (\<exists>name opConf class.
             name \<in> set names \<and> map_of opers name = Some opConf \<and> CasefoldName name = Inr k
             \<and> oc (OperConfig.Class opConf) = Some class \<and> Oper.Class oper = class
             \<and> Oper.WhoisLine oper =
                 (if OperConfig.WhoisLine opConf \<noteq> [] then OperConfig.WhoisLine opConf
                  else OperClass.WhoisLine class)))"
proof (intro conjI impI)
  assume "CasefoldName name = Inl errc"
  then show "Operators_entry CasefoldName DecodePasswordHash TrimSpace oc name opConf
             = Inl (Error (errCasefold errc))"
    by (simp add: Operators_entry_def)
next
  assume "CasefoldName name = Inr name' \<and> DecodePasswordHash (Password opConf) = Inl errd"
  then show "Operators_entry CasefoldName DecodePasswordHash TrimSpace oc name opConf
             = Inl (Fatal (''decode password error: '' @ errd))"
    by (simp add: Operators_entry_def)
next
  assume "CasefoldName name = Inr name' \<and> DecodePasswordHash (Password opConf) = Inr bytes
         \<and> oc (OperConfig.Class opConf) = None"
  then show "Operators_entry CasefoldName DecodePasswordHash TrimSpace oc name opConf
             = Inl (Error (errUnknownClass name' (OperConfig.Class opConf)))"
    by (simp add: Operators_entry_def)
next
  assume "CasefoldName name = Inr name' \<and> DecodePasswordHash (Password opConf) = Inr bytes
         \<and> oc (OperConfig.Class opConf) = Some cls"
  then show "\<exists>oper. Operators_entry CasefoldName DecodePasswordHash TrimSpace oc name opConf
                      = Inr (name', oper)
             \<and> Oper.Class oper = cls
             \<and> Oper.WhoisLine oper =
                 (if OperConfig.WhoisLine opConf \<noteq> [] then OperConfig.WhoisLine opConf
                  else OperClass.WhoisLine cls)"
    by (simp add: Operators_entry_def)
next
  assume "map_of opers name = Some opConf
        \<and> Operators CasefoldName DecodePasswordHash TrimSpace opers pre oc = Inr bound
        \<and> Operators_entry CasefoldName DecodePasswordHash TrimSpace oc name opConf = Inl e"
  then show "Operators CasefoldName DecodePasswordHash TrimSpace opers (pre @ name # post) oc
               = Inl e"
    using Operators_loop_reaches [of opers name opConf CasefoldName DecodePasswordHash TrimSpace
        pre oc bound e post]
    by blast
next
  assume h: "Operators CasefoldName DecodePasswordHash TrimSpace opers names oc = Inr operators
        \<and> name \<in> set names \<and> map_of opers name = Some opConf"
  then have "Operators_loop CasefoldName DecodePasswordHash TrimSpace oc opers names Map.empty
               = Inr operators"
    by (simp add: Operators_def)
  from Operators_loop_binds [OF this, of name opConf] h obtain k oper where
    b: "Operators_entry CasefoldName DecodePasswordHash TrimSpace oc name opConf = Inr (k, oper)"
       "operators k \<noteq> None"
       "(\<forall>other\<in>set names. map_of opers other \<noteq> None \<and> CasefoldName other = Inr k
            \<longrightarrow> other = name)
        \<longrightarrow> operators k = Some oper"
    by blast
  from Operators_entry_WhoisLine [OF b(1)] b
  show "\<exists>k oper class.
             Operators_entry CasefoldName DecodePasswordHash TrimSpace oc name opConf
               = Inr (k, oper)
             \<and> CasefoldName name = Inr k
             \<and> oc (OperConfig.Class opConf) = Some class \<and> Oper.Class oper = class
             \<and> Oper.WhoisLine oper =
                 (if OperConfig.WhoisLine opConf \<noteq> [] then OperConfig.WhoisLine opConf
                  else OperClass.WhoisLine class)
             \<and> operators k \<noteq> None
             \<and> ((\<forall>other\<in>set names. map_of opers other \<noteq> None \<and> CasefoldName other = Inr k
                    \<longrightarrow> other = name)
                \<longrightarrow> operators k = Some oper)"
    by blast
next
  assume "Operators CasefoldName DecodePasswordHash TrimSpace opers names oc = Inr operators
        \<and> operators k = Some oper"
  then have "\<exists>name opConf. name \<in> set names \<and> map_of opers name = Some opConf
             \<and> Operators_entry CasefoldName DecodePasswordHash TrimSpace oc name opConf
                 = Inr (k, oper)"
    using Operators_loop_entries [of CasefoldName DecodePasswordHash TrimSpace oc opers names
        Map.empty operators k oper]
    by (simp add: Operators_def)
  then obtain n c where
    n: "n \<in> set names" "map_of opers n = Some c"
       "Operators_entry CasefoldName DecodePasswordHash TrimSpace oc n c = Inr (k, oper)"
    by blast
  from Operators_entry_WhoisLine [OF n(3)] n(1,2)
  show "\<exists>name opConf class.
             name \<in> set names \<and> map_of opers name = Some opConf \<and> CasefoldName name = Inr k
             \<and> oc (OperConfig.Class opConf) = Some class \<and> Oper.Class oper = class
             \<and> Oper.WhoisLine oper =
                 (if OperConfig.WhoisLine opConf \<noteq> [] then OperConfig.WhoisLine opConf
                  else OperClass.WhoisLine class)"
    by blast
qed

text \<open>The definitions a run of \<^verbatim>\<open>Operators\<close> on a concrete input unfolds.\<close>

lemmas eval_Operators =
  Operators_def Operators_entry_def example_CasefoldName_def example_DecodePasswordHash_def
  ascii_TrimSpace_def ascii_ToLower_def errCasefold_def errUnknownClass_def
  operConfig_dan_def operConfig_ghost_def operConfig_whois_def

text \<open>
  Three runs on entries whose class is missing: a name that does not casefold gives the
  casefold error, a hash that does not decode ends the process, and of two entries with
  missing classes only the first enumerated is named.
\<close>

theorem C8_operator_class_lookup_counterexample:
  "Operators example_CasefoldName example_DecodePasswordHash ascii_TrimSpace
     [(''Dan Ny'', operConfig_dan\<lparr>OperConfig.Class := ''ghost''\<rparr>)] [''Dan Ny'']
     [''server-admin'' \<mapsto> operClass_server_admin]
   = Inl (Error ''Could not casefold oper name: invalid name'')
   \<and> Operators example_CasefoldName example_DecodePasswordHash ascii_TrimSpace
     [(''Dan'', operConfig_dan\<lparr>OperConfig.Class := ''ghost'', Password := []\<rparr>)] [''Dan'']
     [''server-admin'' \<mapsto> operClass_server_admin]
   = Inl (Fatal ''decode password error: empty password'')
   \<and> Operators example_CasefoldName example_DecodePasswordHash ascii_TrimSpace
     [(''Alice'', operConfig_dan\<lparr>OperConfig.Class := ''ghost''\<rparr>),
      (''Bob'', operConfig_dan\<lparr>OperConfig.Class := ''phantom''\<rparr>)] [''Alice'', ''Bob'']
     [''server-admin'' \<mapsto> operClass_server_admin]
   = Inl (Error ''Could not load operator [alice] - they use operclass [ghost] which does not exist'')"
  by (simp add: eval_Operators operConfig_dan_def)

theorem C8_operator_class_lookup_witness:
  "Operators_entry example_CasefoldName example_DecodePasswordHash ascii_TrimSpace
     [''server-admin'' \<mapsto> operClass_server_admin] [] operConfig_ghost
   = Inl (Error (errCasefold ''invalid name''))
   \<and> Operators_entry example_CasefoldName example_DecodePasswordHash ascii_TrimSpace
     [''server-admin'' \<mapsto> operClass_server_admin] ''Dan'' (operConfig_dan\<lparr>Password := []\<rparr>)
   = Inl (Fatal ''decode password error: empty password'')
   \<and> Operators_entry example_CasefoldName example_DecodePasswordHash ascii_TrimSpace
     [''server-admin'' \<mapsto> operClass_server_admin] ''Dan'' operConfig_ghost
   = Inl (Error (errUnknownClass ''dan'' ''ghost''))
   \<and> (\<exists>oper. Operators_entry example_CasefoldName example_DecodePasswordHash ascii_TrimSpace
         [''server-admin'' \<mapsto> operClass_server_admin] ''Eve'' operConfig_dan = Inr (''eve'', oper)
       \<and> Oper.Class oper = operClass_server_admin
       \<and> Oper.WhoisLine oper = ''is a Server Admin'')
   \<and> Operators example_CasefoldName example_DecodePasswordHash ascii_TrimSpace
     [(''Eve'', operConfig_dan), (''Dan'', operConfig_ghost)]
     [''Eve'', ''Dan''] [''server-admin'' \<mapsto> operClass_server_admin]
   = Inl (Error (errUnknownClass ''dan'' ''ghost''))
   \<and> (\<exists>operators oper.
         Operators example_CasefoldName example_DecodePasswordHash ascii_TrimSpace
           [(''Eve'', operConfig_dan), (''Dan'', operConfig_whois)]
           [''Eve'', ''Dan''] [''server-admin'' \<mapsto> operClass_server_admin] = Inr operators
       \<and> operators ''dan'' = Some oper
       \<and> Oper.Class oper = operClass_server_admin
       \<and> Oper.WhoisLine oper = ''is Dan'')
   \<and> (\<exists>name opConf class.
         name \<in> set [''Eve''] \<and> map_of [(''Eve'', operConfig_dan)] name = Some opConf
         \<and> example_CasefoldName name = Inr ''eve''
         \<and> [''server-admin'' \<mapsto> operClass_server_admin] (OperConfig.Class opConf) = Some class
         \<and> class = operClass_server_admin
         \<and> ''is a Server Admin'' =
              (if OperConfig.WhoisLine opConf \<noteq> [] then OperConfig.WhoisLine opConf
               else OperClass.WhoisLine class))"
proof -
  let ?oc = "[''server-admin'' \<mapsto> operClass_server_admin]"
  let ?nopw = "operConfig_dan\<lparr>Password := []\<rparr>"
  let ?eve = "\<lparr>Oper.Class = operClass_server_admin, WhoisLine = ''is a Server Admin'',
                Vhost = ''n'', Pass = ''JDJhJDA0'', Modes = ''+is''\<rparr>"
  let ?dan = "\<lparr>Oper.Class = operClass_server_admin, WhoisLine = ''is Dan'',
                Vhost = ''n'', Pass = ''JDJhJDA0'', Modes = ''+is''\<rparr>"
  let ?opers = "[(''Eve'', operConfig_dan), (''Dan'', operConfig_ghost)]"
  let ?opers2 = "[(''Eve'', operConfig_dan), (''Dan'', operConfig_whois)]"
  let ?ops2 = "[''eve'' \<mapsto> ?eve, ''dan'' \<mapsto> ?dan]"
  have h1: "example_CasefoldName [] = Inl ''invalid name''"
    by (simp add: example_CasefoldName_def)
  have h2: "example_CasefoldName ''Dan'' = Inr ''dan''
      \<and> example_DecodePasswordHash (Password ?nopw) = Inl ''empty password''"
    by (simp add: eval_Operators)
  have h3: "example_CasefoldName ''Dan'' = Inr ''dan''
      \<and> example_DecodePasswordHash (Password operConfig_ghost) = Inr ''JDJhJDA0''
      \<and> ?oc (OperConfig.Class operConfig_ghost) = None"
    by (simp add: eval_Operators)
  have h4: "example_CasefoldName ''Eve'' = Inr ''eve''
      \<and> example_DecodePasswordHash (Password operConfig_dan) = Inr ''JDJhJDA0''
      \<and> ?oc (OperConfig.Class operConfig_dan) = Some operClass_server_admin"
    by (simp add: eval_Operators)
  note E1 = C8_operator_class_lookup [where CasefoldName = example_CasefoldName
      and name = "[]" and errc = "''invalid name''" and DecodePasswordHash = example_DecodePasswordHash
      and TrimSpace = ascii_TrimSpace and oc = ?oc and opConf = operConfig_ghost,
      THEN conjunct1, THEN conjunct1, THEN mp, OF h1]
  note E2 = C8_operator_class_lookup [where CasefoldName = example_CasefoldName
      and name = "''Dan''" and name' = "''dan''" and errd = "''empty password''"
      and DecodePasswordHash = example_DecodePasswordHash
      and TrimSpace = ascii_TrimSpace and oc = ?oc and opConf = ?nopw,
      THEN conjunct1, THEN conjunct2, THEN conjunct1, THEN mp, OF h2]
  note E3 = C8_operator_class_lookup [where CasefoldName = example_CasefoldName
      and name = "''Dan''" and name' = "''dan''" and bytes = "''JDJhJDA0''"
      and DecodePasswordHash = example_DecodePasswordHash
      and TrimSpace = ascii_TrimSpace and oc = ?oc and opConf = operConfig_ghost,
      THEN conjunct1, THEN conjunct2, THEN conjunct2, THEN conjunct1, THEN mp, OF h3]
  note E4 = C8_operator_class_lookup [where CasefoldName = example_CasefoldName
      and name = "''Eve''" and name' = "''eve''" and bytes = "''JDJhJDA0''"
      and DecodePasswordHash = example_DecodePasswordHash and cls = operClass_server_admin
      and TrimSpace = ascii_TrimSpace and oc = ?oc and opConf = operConfig_dan,
      THEN conjunct1, THEN conjunct2, THEN conjunct2, THEN conjunct2, THEN mp, OF h4]
  have r: "map_of ?opers ''Dan'' = Some operConfig_ghost
      \<and> Operators example_CasefoldName example_DecodePasswordHash ascii_TrimSpace ?opers
           [''Eve''] ?oc = Inr [''eve'' \<mapsto> ?eve]
      \<and> Operators_entry example_CasefoldName example_DecodePasswordHash ascii_TrimSpace ?oc
           ''Dan'' operConfig_ghost = Inl (Error (errUnknownClass ''dan'' ''ghost''))"
    using E3 by (simp add: eval_Operators operClass_server_admin_def)
  note R = C8_operator_class_lookup [where CasefoldName = example_CasefoldName
      and name = "''Dan''" and DecodePasswordHash = example_DecodePasswordHash
      and TrimSpace = ascii_TrimSpace and oc = ?oc and opConf = operConfig_ghost
      and opers = ?opers and pre = "[''Eve'']" and bound = "[''eve'' \<mapsto> ?eve]"
      and e = "Error (errUnknownClass ''dan'' ''ghost'')" and post = "[]",
      THEN conjunct2, THEN conjunct1, THEN mp, OF r]
  have run2: "Operators example_CasefoldName example_DecodePasswordHash ascii_TrimSpace ?opers2
           [''Eve'', ''Dan''] ?oc = Inr ?ops2"
    by (simp add: eval_Operators operClass_server_admin_def)
  have f: "Operators example_CasefoldName example_DecodePasswordHash ascii_TrimSpace ?opers2
           [''Eve'', ''Dan''] ?oc = Inr ?ops2
      \<and> ''Dan'' \<in> set [''Eve'', ''Dan''] \<and> map_of ?opers2 ''Dan'' = Some operConfig_whois"
    using run2 by simp
  note F = C8_operator_class_lookup [where CasefoldName = example_CasefoldName
      and name = "''Dan''" and DecodePasswordHash = example_DecodePasswordHash
      and TrimSpace = ascii_TrimSpace and oc = ?oc and opConf = operConfig_whois
      and opers = ?opers2 and names = "[''Eve'', ''Dan'']" and operators = ?ops2,
      THEN conjunct2, THEN conjunct2, THEN conjunct1, THEN mp, OF f]
  then obtain k oper cl where
    x: "example_CasefoldName ''Dan'' = Inr k"
       "?oc (OperConfig.Class operConfig_whois) = Some cl" "Oper.Class oper = cl"
       "Oper.WhoisLine oper =
          (if OperConfig.WhoisLine operConfig_whois \<noteq> [] then OperConfig.WhoisLine operConfig_whois
           else OperClass.WhoisLine cl)"
       "(\<forall>other\<in>set [''Eve'', ''Dan'']. map_of ?opers2 other \<noteq> None
             \<and> example_CasefoldName other = Inr k \<longrightarrow> other = ''Dan'')
        \<longrightarrow> ?ops2 k = Some oper"
    by blast
  from x(1) have k: "k = ''dan''" by (simp add: eval_Operators)
  have u: "\<forall>other\<in>set [''Eve'', ''Dan'']. map_of ?opers2 other \<noteq> None
             \<and> example_CasefoldName other = Inr ''dan'' \<longrightarrow> other = ''Dan''"
    by (simp add: eval_Operators)
  from x(5) u k have bound: "?ops2 ''dan'' = Some oper" by blast
  from x(2,3) have cl: "Oper.Class oper = operClass_server_admin"
    by (simp add: eval_Operators)
  from x(4) have wl: "Oper.WhoisLine oper = ''is Dan''" by (simp add: eval_Operators)
  from run2 bound cl wl have F': "\<exists>operators oper.
         Operators example_CasefoldName example_DecodePasswordHash ascii_TrimSpace ?opers2
           [''Eve'', ''Dan''] ?oc = Inr operators
       \<and> operators ''dan'' = Some oper
       \<and> Oper.Class oper = operClass_server_admin
       \<and> Oper.WhoisLine oper = ''is Dan''"
    by blast
  have b: "Operators example_CasefoldName example_DecodePasswordHash ascii_TrimSpace
      [(''Eve'', operConfig_dan)] [''Eve''] ?oc = Inr [''eve'' \<mapsto> ?eve]
      \<and> [''eve'' \<mapsto> ?eve] ''eve'' = Some ?eve"
    by (simp add: eval_Operators operClass_server_admin_def)
  note B = C8_operator_class_lookup [where CasefoldName = example_CasefoldName
      and DecodePasswordHash = example_DecodePasswordHash
      and TrimSpace = ascii_TrimSpace and oc = ?oc
      and opers = "[(''Eve'', operConfig_dan)]" and names = "[''Eve'']"
      and operators = "[''eve'' \<mapsto> ?eve]" and k = "''eve''" and oper = ?eve,
      THEN conjunct2, THEN conjunct2, THEN conjunct2, THEN mp, OF b]
  have E4': "\<exists>oper. Operators_entry example_CasefoldName example_DecodePasswordHash ascii_TrimSpace
         ?oc ''Eve'' operConfig_dan = Inr (''eve'', oper)
       \<and> Oper.Class oper = operClass_server_admin
       \<and> Oper.WhoisLine oper = ''is a Server Admin''"
    using E4 by (simp add: operConfig_dan_def operClass_server_admin_def)
  have B': "\<exists>name opConf class.
         name \<in> set [''Eve''] \<and> map_of [(''Eve'', operConfig_dan)] name = Some opConf
         \<and> example_CasefoldName name = Inr ''eve''
         \<and> ?oc (OperConfig.Class opConf) = Some class
         \<and> class = operClass_server_admin
         \<and> ''is a Server Admin'' =
              (if OperConfig.WhoisLine opConf \<noteq> [] then OperConfig.WhoisLine opConf
               else OperClass.WhoisLine class)"
    using B by simp
  have E2': "Operators_entry example_CasefoldName example_DecodePasswordHash ascii_TrimSpace
     ?oc ''Dan'' ?nopw = Inl (Fatal ''decode password error: empty password'')"
    using E2 by simp
  have E3': "Operators_entry example_CasefoldName example_DecodePasswordHash ascii_TrimSpace
     ?oc ''Dan'' operConfig_ghost = Inl (Error (errUnknownClass ''dan'' ''ghost''))"
    using E3 by (simp add: operConfig_ghost_def operConfig_dan_def)
  have R': "Operators example_CasefoldName example_DecodePasswordHash ascii_TrimSpace
     ?opers [''Eve'', ''Dan''] ?oc = Inl (Error (errUnknownClass ''dan'' ''ghost''))"
    using R by simp
  from E1 E2' E3' E4' R' F' B' show ?thesis by (intro conjI)
qed

end
